theory Spec2Isabelle
  imports Main
begin

section \<open>Strings\<close>

text \<open>
  JavaScript strings are modelled as \<^typ>\<open>string\<close>: one \<^typ>\<open>char\<close> per code unit,
  restricted to the code units 0..255 (Latin-1).
\<close>

definition isLineTerminator :: "char \<Rightarrow> bool" where
  \<comment> \<open>What \<open>.\<close> refuses and what \<open>^\<close> and \<open>$\<close> look for under the \<open>m\<close> flag.\<close>
  "isLineTerminator c = (c = CHR 0x0A \<or> c = CHR 0x0D)"

definition isWhiteSpace :: "char \<Rightarrow> bool" where
  \<comment> \<open>The characters \<open>trim\<close> and \<open>trimStart\<close> strip: tab, LF, VT, FF, CR, space, NBSP.\<close>
  "isWhiteSpace c = (c = CHR 0x09 \<or> c = CHR 0x0A \<or> c = CHR 0x0B \<or> c = CHR 0x0C \<or>
     c = CHR 0x0D \<or> c = CHR 0x20 \<or> c = CHR 0xA0)"

definition trimStart :: "string \<Rightarrow> string" where
  "trimStart s = dropWhile isWhiteSpace s"

definition trimEnd :: "string \<Rightarrow> string" where
  "trimEnd s = rev (dropWhile isWhiteSpace (rev s))"

definition trim :: "string \<Rightarrow> string" where
  "trim s = trimEnd (trimStart s)"

definition canonicalize :: "char \<Rightarrow> char" where
  \<comment> \<open>Case folding of a regular expression with the \<open>i\<close> flag: the upper-case form of
      the character, when that is again a single character of the range.\<close>
  "canonicalize c =
     (let n = (of_char c :: nat) in
      if (97 \<le> n \<and> n \<le> 122) \<or> (224 \<le> n \<and> n \<le> 254 \<and> n \<noteq> 247)
      then char_of (n - 32) else c)"

section \<open>Autocomplete.search\<close>

text \<open>
  \<open>new RegExp('^' + mw.util.escapeRegExp(text), 'i').test(item)\<close>: the escaped text matches
  itself literally, so the test is a prefix test up to case.
\<close>

fun startsWithRegexp :: "string \<Rightarrow> string \<Rightarrow> bool" where
  "startsWithRegexp [] item = True"
| "startsWithRegexp (c # cs) [] = False"
| "startsWithRegexp (c # cs) (d # ds) =
     (canonicalize c = canonicalize d \<and> startsWithRegexp cs ds)"

text \<open>\<open>new RegExp(mw.util.escapeRegExp(text), 'i').test(item)\<close>: a match at some position.\<close>

fun containsRegexp :: "string \<Rightarrow> string \<Rightarrow> bool" where
  "containsRegexp text [] = startsWithRegexp text []"
| "containsRegexp text (d # ds) =
     (startsWithRegexp text (d # ds) \<or> containsRegexp text ds)"

definition compareItems :: "string \<Rightarrow> string \<Rightarrow> string \<Rightarrow> int" where
  \<comment> \<open>The comparison function handed to \<open>sort\<close>.\<close>
  "compareItems text item1 item2 =
     (let item1StartsWith = startsWithRegexp text item1;
          item2StartsWith = startsWithRegexp text item2
      in if item1StartsWith \<and> \<not> item2StartsWith then - 1
         else if item2StartsWith \<and> \<not> item1StartsWith then 1
         else 0)"

text \<open>
  \<open>Array.prototype.sort\<close> is a stable sort (ECMAScript 2019): modelled as the stable
  insertion sort by a comparison function.
\<close>

fun insertBy :: "('a \<Rightarrow> 'a \<Rightarrow> int) \<Rightarrow> 'a \<Rightarrow> 'a list \<Rightarrow> 'a list" where
  "insertBy cmp x [] = [x]"
| "insertBy cmp x (y # ys) =
     (if cmp x y \<le> 0 then x # y # ys else y # insertBy cmp x ys)"

definition sortBy :: "('a \<Rightarrow> 'a \<Rightarrow> int) \<Rightarrow> 'a list \<Rightarrow> 'a list" where
  "sortBy cmp xs = foldr (insertBy cmp) xs []"

definition search :: "string \<Rightarrow> string list \<Rightarrow> string list" where
  "search text list = sortBy (compareItems text) (filter (containsRegexp text) list)"

section \<open>Regular expressions of Page.js\<close>

text \<open>
  \<open>String.prototype.slice\<close>: a negative index counts from the end, every index is clamped
  to the string.
\<close>

definition relativeIndex :: "nat \<Rightarrow> int \<Rightarrow> nat" where
  "relativeIndex len i = (if i < 0 then nat (max (int len + i) 0) else min (nat i) len)"

definition sliceTo :: "string \<Rightarrow> int \<Rightarrow> string" where
  \<comment> \<open>\<open>s.slice(0, end)\<close>\<close>
  "sliceTo s e = take (relativeIndex (length s) e) s"

definition sliceFrom :: "string \<Rightarrow> int \<Rightarrow> string" where
  \<comment> \<open>\<open>s.slice(start)\<close>\<close>
  "sliceFrom s b = drop (relativeIndex (length s) b) s"

definition atLineStart :: "string \<Rightarrow> nat \<Rightarrow> bool" where
  \<comment> \<open>Where \<open>^\<close> holds under the \<open>m\<close> flag: at the start of the input and after a
      line terminator.\<close>
  "atLineStart s i = (i = 0 \<or> (i \<le> length s \<and> isLineTerminator (s ! (i - 1))))"

text \<open>
  \<open>.*?\<close> followed by the rest of a pattern, the rest given as a test on the remaining
  input: the rest is tried first, then one more character that is no line terminator.
\<close>

fun lazyDotThen :: "(string \<Rightarrow> bool) \<Rightarrow> string \<Rightarrow> bool" where
  "lazyDotThen rest [] = rest []"
| "lazyDotThen rest (c # cs) =
     (rest (c # cs) \<or> (\<not> isLineTerminator c \<and> lazyDotThen rest cs))"

definition startsWith :: "string \<Rightarrow> string \<Rightarrow> bool" where
  \<comment> \<open>\<open>s.startsWith(p)\<close>\<close>
  "startsWith s p = (take (length p) s = p)"

definition anyHeadingAt :: "string \<Rightarrow> bool" where
  \<comment> \<open>\<open>(=+).*?\1\<close> at the start of the given input: the group takes as many \<open>=\<close> as
      there are and gives them back one at a time.\<close>
  "anyHeadingAt s =
     (let n = length (takeWhile (\<lambda>c. c = CHR ''='') s)
      in list_ex (\<lambda>k. lazyDotThen (\<lambda>r. startsWith r (replicate k CHR ''='')) (drop k s))
           (rev [1 ..< Suc n]))"

function searchFrom :: "(string \<Rightarrow> bool) \<Rightarrow> string \<Rightarrow> nat \<Rightarrow> nat option" where
  "searchFrom m s i =
     (if length s < i then None
      else if atLineStart s i \<and> m (drop i s) then Some i
      else searchFrom m s (Suc i))"
  by pat_completeness auto
termination
  by (relation "measure (\<lambda>(m, s, i). Suc (length s) - i)") auto

definition searchAnyHeading :: "string \<Rightarrow> int" where
  \<comment> \<open>\<open>s.search(/^(=+).*?\1/m)\<close>: the index of the first match, or -1.\<close>
  "searchAnyHeading s = (case searchFrom anyHeadingAt s 0 of None \<Rightarrow> - 1 | Some i \<Rightarrow> int i)"

definition isSpaceOrTab :: "char \<Rightarrow> bool" where
  "isSpaceOrTab c = (c = CHR '' '' \<or> c = CHR 0x09)"

text \<open>
  The tail of the section heading pattern, \<open>(?:<!--[^]*?-->[ \t]*)*\n\<close>, and the inside
  of one of its comments, \<open>[^]*?-->[ \t]*\<close> followed by that tail again. Each function
  returns the input left after the match that backtracking finds first. A run
  \<open>[ \t]*\<close> is taken whole: what follows it in the pattern starts with \<open><\<close> or a
  line feed, so giving a blank back never helps.
\<close>

lemma startsWith_length: "startsWith s p \<Longrightarrow> length p \<le> length s"
proof -
  assume "startsWith s p"
  then have "length (take (length p) s) = length p" by (simp add: startsWith_def)
  then show ?thesis by simp
qed

function afterHeading :: "string \<Rightarrow> string option"
  and insideComment :: "string \<Rightarrow> string option" where
  "afterHeading s =
     (case (if startsWith s ''<!--'' then insideComment (drop 4 s) else None) of
        Some r \<Rightarrow> Some r
      | None \<Rightarrow> (case s of [] \<Rightarrow> None
                 | c # cs \<Rightarrow> if c = CHR 0x0A then Some cs else None))"
| "insideComment s =
     (case (if startsWith s ''-->'' then afterHeading (dropWhile isSpaceOrTab (drop 3 s))
            else None) of
        Some r \<Rightarrow> Some r
      | None \<Rightarrow> (case s of [] \<Rightarrow> None | c # cs \<Rightarrow> insideComment cs))"
  by pat_completeness auto
termination
proof (relation "measure (\<lambda>x. case x of Inl s \<Rightarrow> 2 * length s + 1 | Inr s \<Rightarrow> 2 * length s)",
    goal_cases)
  case 1
  show ?case by simp
next
  case (2 s)
  from startsWith_length [OF 2] show ?case by simp
next
  case (3 s)
  have "length (dropWhile isSpaceOrTab (drop 3 s)) \<le> length (drop 3 s)"
    by (rule length_dropWhile_le)
  with startsWith_length [OF 3] show ?case by simp
next
  case (4 s c cs)
  then show ?case by simp
qed

text \<open>
  The section heading pattern of \<open>analyzeNewTopicPlacement\<close>,
  \<open>/^==[^=].*?==[ \t]*(?:<!--[^]*?-->[ \t]*)*\n/gm\<close>. \<open>headingBody\<close> is the part from
  \<open>.*?\<close> on; \<open>sectionHeadingAt\<close> matches the pattern at the start of the given input
  and returns the length of the match.
\<close>

fun headingBody :: "string \<Rightarrow> string option" where
  "headingBody s =
     (case (if startsWith s ''=='' then afterHeading (dropWhile isSpaceOrTab (drop 2 s))
            else None) of
        Some r \<Rightarrow> Some r
      | None \<Rightarrow> (case s of [] \<Rightarrow> None
                 | c # cs \<Rightarrow> if isLineTerminator c then None else headingBody cs))"

definition sectionHeadingAt :: "string \<Rightarrow> nat option" where
  "sectionHeadingAt s =
     (case s of
        a # b # c # r \<Rightarrow>
          if a = CHR ''='' \<and> b = CHR ''='' \<and> c \<noteq> CHR ''=''
          then (case headingBody r of None \<Rightarrow> None
                | Some rest \<Rightarrow> Some (length s - length rest))
          else None
      | _ \<Rightarrow> None)"

text \<open>
  \<open>regexp.exec(s)\<close> of a pattern with the \<open>g\<close> and \<open>m\<close> flags that starts with
  \<open>^\<close>: the search starts at \<open>lastIndex\<close>; a match gives its index and the new
  \<open>lastIndex\<close>, the end of the match.
\<close>

function execFrom :: "(string \<Rightarrow> nat option) \<Rightarrow> string \<Rightarrow> nat \<Rightarrow> (nat \<times> nat) option" where
  "execFrom m s lastIndex =
     (if length s < lastIndex then None
      else (case (if atLineStart s lastIndex then m (drop lastIndex s) else None) of
              Some n \<Rightarrow> Some (lastIndex, lastIndex + n)
            | None \<Rightarrow> execFrom m s (Suc lastIndex)))"
  by pat_completeness auto
termination
  by (relation "measure (\<lambda>(m, s, i). Suc (length s) - i)") auto

declare afterHeading.simps [simp del] insideComment.simps [simp del]
  headingBody.simps [simp del] execFrom.simps [simp del] searchFrom.simps [simp del]

lemma afterHeading_shorter:
  "afterHeading s = Some r \<Longrightarrow> length r < length s"
  "insideComment s = Some r \<Longrightarrow> length r < length s"
proof (induction s and s arbitrary: r and r rule: afterHeading_insideComment.induct)
  case (1 s)
  show ?case
  proof (cases "startsWith s ''<!--'' \<and> insideComment (drop 4 s) \<noteq> None")
    case True
    then obtain r' where r': "insideComment (drop 4 s) = Some r'" by auto
    with True "1.prems" have "r' = r" by (subst (asm) afterHeading.simps) simp
    with "1.IH" True r' have "length r < length (drop 4 s)" by simp
    then show ?thesis by simp
  next
    case False
    with "1.prems" show ?thesis
      by (subst (asm) afterHeading.simps) (auto split: list.splits if_splits)
  qed
next
  case (2 s)
  show ?case
  proof (cases "startsWith s ''-->'' \<and> afterHeading (dropWhile isSpaceOrTab (drop 3 s)) \<noteq> None")
    case True
    then obtain r' where r': "afterHeading (dropWhile isSpaceOrTab (drop 3 s)) = Some r'" by auto
    with True "2.prems" have "r' = r" by (subst (asm) insideComment.simps) simp
    with "2.IH"(1) True r' have "length r < length (dropWhile isSpaceOrTab (drop 3 s))" by simp
    also have "\<dots> \<le> length (drop 3 s)" by (rule length_dropWhile_le)
    finally show ?thesis by simp
  next
    case False
    with "2.prems" obtain c cs where s: "s = c # cs" and "insideComment cs = Some r"
      by (subst (asm) insideComment.simps) (auto split: list.splits if_splits)
    with "2.IH"(2) False have "length r < length cs" by auto
    with s show ?thesis by simp
  qed
qed

lemma headingBody_shorter: "headingBody s = Some r \<Longrightarrow> length r < length s"
proof (induction s arbitrary: r rule: headingBody.induct)
  case (1 s)
  show ?case
  proof (cases "startsWith s ''=='' \<and> afterHeading (dropWhile isSpaceOrTab (drop 2 s)) \<noteq> None")
    case True
    then obtain r' where r': "afterHeading (dropWhile isSpaceOrTab (drop 2 s)) = Some r'" by auto
    with True "1.prems" have "r' = r" by (subst (asm) headingBody.simps) simp
    with r' have "length r < length (dropWhile isSpaceOrTab (drop 2 s))"
      by (simp add: afterHeading_shorter)
    also have "\<dots> \<le> length (drop 2 s)" by (rule length_dropWhile_le)
    finally show ?thesis by simp
  next
    case False
    with "1.prems" obtain c cs where s: "s = c # cs" and c: "\<not> isLineTerminator c"
      and "headingBody cs = Some r"
      by (subst (asm) headingBody.simps) (auto split: list.splits if_splits)
    with "1.IH" False have "length r < length cs" by auto
    with s show ?thesis by simp
  qed
qed

lemma sectionHeadingAt_bounds:
  "sectionHeadingAt s = Some n \<Longrightarrow> 0 < n \<and> n \<le> length s"
  by (auto simp: sectionHeadingAt_def split: list.splits if_splits option.splits
      dest!: headingBody_shorter)

lemma execFrom_bounds:
  "execFrom sectionHeadingAt s i = Some (idx, e) \<Longrightarrow>
     i \<le> idx \<and> idx < e \<and> e \<le> length s"
proof (induction sectionHeadingAt s i rule: execFrom.induct)
  case (1 s lastIndex)
  show ?case
  proof (cases "atLineStart s lastIndex \<and> sectionHeadingAt (drop lastIndex s) \<noteq> None")
    case True
    then obtain n where n: "sectionHeadingAt (drop lastIndex s) = Some n" by auto
    from sectionHeadingAt_bounds [OF n] have "0 < n" "n \<le> length s - lastIndex" by simp_all
    moreover from "1.prems" True n have "idx = lastIndex" "e = lastIndex + n" "lastIndex \<le> length s"
      by (subst (asm) execFrom.simps, simp split: if_splits)+
    ultimately show ?thesis by simp
  next
    case False
    with "1.prems" have le: "\<not> length s < lastIndex"
      and rec: "execFrom sectionHeadingAt s (Suc lastIndex) = Some (idx, e)"
      by (subst (asm) execFrom.simps, auto split: if_splits option.splits)+
    from "1.hyps" [OF le _ rec] False have "Suc lastIndex \<le> idx \<and> idx < e \<and> e \<le> length s"
      by auto
    then show ?thesis by simp
  qed
qed


section \<open>Page.js\<close>

text \<open>
  The functions that Page.js imports from wikitext.js and timestamp.js and the per-site
  setting \<open>cd.config.areNewTopicsOnTop\<close> are parameters of the model.
  \<open>parseTimestamp\<close> gives the \<open>date\<close> of its result as a number (the time value that
  \<open>>\<close> compares), or nothing when it has no result. The setting, when there is one,
  answers true or false, or with undefined or null.
\<close>

datatype answer =
    Decided bool
  | Undefined
  | Null

record collaborators =
  hideHtmlComments :: "string \<Rightarrow> string"
  findFirstTimestamp :: "string \<Rightarrow> string option"
  parseTimestamp :: "string \<Rightarrow> int option"
  areNewTopicsOnTopConfig :: "(string \<Rightarrow> string \<Rightarrow> answer) option"

record modification =
  newPageCode :: string
  codeBeforeInsertion :: string
  commentCode :: string

text \<open>
  \<open>modifyCode\<close>: \<open>comment\<close> is the \<open>commentCode\<close> that
  \<open>commentForm.commentTextToCode('submit')\<close> returns, \<open>isNewTopicOnTop\<close> the field of
  the comment form.
\<close>

definition modifyCode :: "collaborators \<Rightarrow> string \<Rightarrow> string \<Rightarrow> bool \<Rightarrow> modification" where
  "modifyCode env pageCode comment isNewTopicOnTop =
     (if isNewTopicOnTop then
        let adjustedPageCode = hideHtmlComments env pageCode;
            firstSectionStartIndex = searchAnyHeading adjustedPageCode;
            before = sliceTo pageCode firstSectionStartIndex;
            codeAfterInsertion = sliceFrom pageCode firstSectionStartIndex
        in \<lparr>newPageCode = before @ comment @ [CHR 0x0A] @ codeAfterInsertion,
            codeBeforeInsertion = before, commentCode = comment\<rparr>
      else
        let before = trimStart (pageCode @ [CHR 0x0A])
        in \<lparr>newPageCode = before @ comment,
            codeBeforeInsertion = before, commentCode = comment\<rparr>)"

record page =
  name :: string
  namespace :: int
  code :: "string option"
  pageId :: "nat option"
  areNewTopicsOnTop :: answer
  firstSectionStartIndex :: "nat option"

definition firstDate :: "collaborators \<Rightarrow> string \<Rightarrow> int option" where
  \<comment> \<open>\<open>const { date } = timestamp && parseTimestamp(timestamp) || {}\<close>\<close>
  "firstDate env s =
     (case findFirstTimestamp env s of
        None \<Rightarrow> None
      | Some timestamp \<Rightarrow> if timestamp = [] then None else parseTimestamp env timestamp)"

text \<open>
  The \<open>while\<close> loop of \<open>analyzeNewTopicPlacement\<close>, from a given \<open>lastIndex\<close> of the
  section heading pattern, with the loop variables \<open>previousDate\<close> and
  \<open>difference\<close>. It returns the final \<open>difference\<close>.
\<close>

function topicOrder ::
  "collaborators \<Rightarrow> string \<Rightarrow> string \<Rightarrow> nat \<Rightarrow> int option \<Rightarrow> int \<Rightarrow> int" where
  "topicOrder env pageCode adjustedCode lastIndex previousDate difference =
     (case execFrom sectionHeadingAt adjustedCode lastIndex of
        None \<Rightarrow> difference
      | Some sectionHeadingMatch \<Rightarrow>
          (case firstDate env (drop (fst sectionHeadingMatch) pageCode) of
             None \<Rightarrow>
               topicOrder env pageCode adjustedCode (snd sectionHeadingMatch)
                 previousDate difference
           | Some date \<Rightarrow>
               topicOrder env pageCode adjustedCode (snd sectionHeadingMatch) (Some date)
                 (case previousDate of
                    None \<Rightarrow> difference
                  | Some previous \<Rightarrow> difference + (if date > previous then - 1 else 1))))"
  by pat_completeness auto
termination
proof (relation "measure (\<lambda>(env, pageCode, adjustedCode, lastIndex, previousDate, difference).
    Suc (length adjustedCode) - lastIndex)", goal_cases)
  case 1
  show ?case by simp
next
  case (2 env pageCode adjustedCode lastIndex previousDate difference m)
  then have "execFrom sectionHeadingAt adjustedCode lastIndex = Some (fst m, snd m)" by simp
  from execFrom_bounds [OF this]
  have "lastIndex < snd m" and "snd m \<le> length adjustedCode" by simp_all
  then show ?case by simp
next
  case (3 env pageCode adjustedCode lastIndex previousDate difference m date)
  then have "execFrom sectionHeadingAt adjustedCode lastIndex = Some (fst m, snd m)" by simp
  from execFrom_bounds [OF this]
  have "lastIndex < snd m" and "snd m \<le> length adjustedCode" by simp_all
  then show ?case by simp
qed

declare topicOrder.simps [simp del]

datatype error =
    CdErrorMessage string
  | TypeError

definition jsRemainder :: "int \<Rightarrow> int \<Rightarrow> int" where
  \<comment> \<open>The operator \<open>%\<close> on integers: the result has the sign of the dividend.\<close>
  "jsRemainder a b = sgn a * (\<bar>a\<bar> mod \<bar>b\<bar>)"

definition analyzeNewTopicPlacement :: "collaborators \<Rightarrow> page \<Rightarrow> error + page" where
  "analyzeNewTopicPlacement env p =
     (case code p of
        None \<Rightarrow> Inl (CdErrorMessage
          ''Can't analyze if the new topics are on top: Page#code is undefined.'')
      | Some pageCode \<Rightarrow>
          let onTop = (case areNewTopicsOnTopConfig env of
                         None \<Rightarrow> Undefined
                       | Some config \<Rightarrow> config (name p) pageCode);
              adjustedCode = hideHtmlComments env pageCode
          in case (if onTop \<noteq> Decided False
                   then (case execFrom sectionHeadingAt adjustedCode 0 of
                           None \<Rightarrow> Inl TypeError
                         | Some sectionHeadingMatch \<Rightarrow> Inr (Some (fst sectionHeadingMatch)))
                   else Inr None) of
               Inl e \<Rightarrow> Inl e
             | Inr firstIndex \<Rightarrow>
                 let onTop' =
                       (if onTop = Undefined
                        then let difference = topicOrder env pageCode adjustedCode 0 None 0
                             in Decided (if difference = 0 then jsRemainder (namespace p) 2 = 0
                                         else difference > 0)
                        else onTop)
                 in Inr (p\<lparr>areNewTopicsOnTop := onTop', firstSectionStartIndex := firstIndex\<rparr>))"

text \<open>
  Modelled from the spec: \<open>hideHtmlComments\<close> of wikitext.js, which is not among the
  sources. The specification (4.2) asks that every \<open><!-- ... -->\<close> span be replaced by a
  placeholder of the same length, that an unterminated comment hide the rest of the
  string, and that the code outside comments stay as it is. The placeholder here is a
  run of spaces. \<open>hideScan inside k\<close> blanks the next \<open>k\<close> characters, the rest of a
  delimiter, before it looks for the next delimiter.
\<close>

fun hideScan :: "bool \<Rightarrow> nat \<Rightarrow> string \<Rightarrow> string" where
  "hideScan inside k [] = []"
| "hideScan inside (Suc k) (c # cs) = CHR '' '' # hideScan inside k cs"
| "hideScan False 0 (c # cs) =
     (if startsWith (c # cs) ''<!--'' then CHR '' '' # hideScan True 3 cs
      else c # hideScan False 0 cs)"
| "hideScan True 0 (c # cs) =
     (if startsWith (c # cs) ''-->'' then CHR '' '' # hideScan False 2 cs
      else CHR '' '' # hideScan True 0 cs)"

definition hideComments :: "string \<Rightarrow> string" where
  "hideComments pageCode = hideScan False 0 pageCode"

text \<open>
  Modelled from the spec: \<open>findFirstTimestamp\<close> of wikitext.js and \<open>parseTimestamp\<close> of
  timestamp.js, which are not among the sources. The specification (4.1) fixes no date
  format: the patterns are configuration of the site. To evaluate the model on concrete
  pages, a timestamp is here the first run of decimal digits of the text, and its date
  the number that the digits write.
\<close>

definition isDigit :: "char \<Rightarrow> bool" where
  "isDigit c = (let n = (of_char c :: nat) in 48 \<le> n \<and> n \<le> 57)"

definition digitsTimestamp :: "string \<Rightarrow> string option" where
  "digitsTimestamp s =
     (let digits = takeWhile isDigit (dropWhile (\<lambda>c. \<not> isDigit c) s)
      in if digits = [] then None else Some digits)"

definition digitsDate :: "string \<Rightarrow> int option" where
  "digitsDate timestamp =
     (if timestamp \<noteq> [] \<and> list_all isDigit timestamp
      then Some (foldl (\<lambda>n c. 10 * n + (int (of_char c) - 48)) 0 timestamp)
      else None)"

definition exampleCollaborators :: collaborators where
  "exampleCollaborators =
     \<lparr>hideHtmlComments = hideComments, findFirstTimestamp = digitsTimestamp,
      parseTimestamp = digitsDate, areNewTopicsOnTopConfig = None\<rparr>"


definition examplePage :: "string \<Rightarrow> int \<Rightarrow> page" where
  \<comment> \<open>A page as \<open>getCode\<close> leaves it, with the given code and namespace.\<close>
  "examplePage pageCode ns =
     \<lparr>name = ''Talk:Example'', namespace = ns, code = Some pageCode, pageId = Some 1,
      areNewTopicsOnTop = Undefined, firstSectionStartIndex = None\<rparr>"

subsection \<open>The tally of analyzeNewTopicPlacement, stated apart from its loop\<close>

text \<open>
  The indexes of all matches of the section heading pattern, in the order in which
  repeated \<open>exec\<close> calls find them from a given \<open>lastIndex\<close>.
\<close>

function headingIndexes :: "string \<Rightarrow> nat \<Rightarrow> nat list" where
  "headingIndexes adjustedCode lastIndex =
     (case execFrom sectionHeadingAt adjustedCode lastIndex of
        None \<Rightarrow> []
      | Some sectionHeadingMatch \<Rightarrow>
          fst sectionHeadingMatch # headingIndexes adjustedCode (snd sectionHeadingMatch))"
  by pat_completeness auto
termination
proof (relation "measure (\<lambda>(adjustedCode, lastIndex). Suc (length adjustedCode) - lastIndex)",
    goal_cases)
  case 1
  show ?case by simp
next
  case (2 adjustedCode lastIndex m)
  then have "execFrom sectionHeadingAt adjustedCode lastIndex = Some (fst m, snd m)" by simp
  from execFrom_bounds [OF this]
  have "lastIndex < snd m" and "snd m \<le> length adjustedCode" by simp_all
  then show ?case by simp
qed

declare headingIndexes.simps [simp del]

definition sectionDates :: "collaborators \<Rightarrow> string \<Rightarrow> int list" where
  \<comment> \<open>The dates of the sections that have one, in the order of the page.\<close>
  "sectionDates env pageCode =
     List.map_filter (\<lambda>index. firstDate env (drop index pageCode))
       (headingIndexes (hideHtmlComments env pageCode) 0)"

fun tally :: "int list \<Rightarrow> int" where
  \<comment> \<open>Over each two neighbours of a list of dates: -1 when the second is the greater,
      +1 when it is not.\<close>
  "tally (earlier # later # dates) =
     (if later > earlier then - 1 else 1) + tally (later # dates)"
| "tally _ = 0"

subsection \<open>Page.edit\<close>

text \<open>
  The payload of a failed request: \<open>apiData.error\<close> with its \<open>code\<close> and \<open>info\<close>,
  \<open>spamblacklist.matches\<close> and \<open>abusefilter.description\<close>. A field that is absent is
  \<open>None\<close>; \<open>spamblacklistMatches\<close> is \<open>None\<close> when \<open>error.spamblacklist\<close> or its
  \<open>matches\<close> is absent, \<open>abusefilter\<close> is \<open>None\<close> when \<open>error.abusefilter\<close> is absent
  and \<open>Some None\<close> when only its description is.
\<close>

record apiError =
  errorCode :: "string option"
  info :: "string option"
  spamblacklistMatches :: "string list option"
  abusefilter :: "string option option"

record apiData =
  error :: "apiError option"

datatype logMessage =
    LogCodeAndData "string option" apiData
  | LogData "apiData option"

record details =
  detailsCode :: "string option"
  message :: "string option"
  isRawMessage :: bool
  logMessage :: logMessage

record cdErrorData =
  errorType :: string
  errorDataCode :: "string option"
  errorApiData :: "apiData option"
  errorDetails :: "details option"

datatype exn =
    CdError cdErrorData
  | JsTypeError
  | OtherError string

record editResponse =
  editPageid :: nat
  newtimestamp :: string

text \<open>
  What \<open>edit\<close> calls and awaits in its \<open>catch\<close> block, as parameters: \<open>cd.s\<close> (the
  interface message of a name, with its parameters), \<open>cd.g.api.loadMessagesIfMissing\<close>
  (\<open>Some\<close> exception when it is rejected), \<open>mw.message(code, description).plain()\<close>,
  \<open>parseCode\<close> (the \<open>html\<close> of its result, if it has a result with one) and
  \<open>unknownApiErrorText\<close>.
\<close>

record editCollaborators =
  cd_s :: "string \<Rightarrow> string option list \<Rightarrow> string"
  loadMessagesIfMissing :: "string list \<Rightarrow> exn option"
  mwMessagePlain :: "string \<Rightarrow> string option \<Rightarrow> string"
  parseCode :: "string \<Rightarrow> exn + string option"
  unknownApiErrorText :: "string option \<Rightarrow> string option \<Rightarrow> exn + string"

definition elementAt :: "'a list \<Rightarrow> nat \<Rightarrow> 'a option" where
  \<comment> \<open>\<open>arr[i]\<close>: \<open>undefined\<close> beyond the end.\<close>
  "elementAt xs i = (if i < length xs then Some (xs ! i) else None)"

text \<open>
  The \<open>switch (code)\<close> of \<open>edit\<close>: the \<open>message\<close> and \<open>isRawMessage\<close> it leaves, or the
  exception that leaves it.
\<close>

definition errorMessage :: "editCollaborators \<Rightarrow> apiError \<Rightarrow> exn + (string \<times> bool)" where
  "errorMessage env err =
     (let code = errorCode err in
      if code = Some ''spamblacklist'' then
        (case spamblacklistMatches err of
           None \<Rightarrow> Inl JsTypeError
         | Some matches \<Rightarrow> Inr (cd_s env ''error-spamblacklist'' [elementAt matches 0], False))
      else if code = Some ''titleblacklist'' then
        Inr (cd_s env ''error-titleblacklist'' [], False)
      else if code = Some ''abusefilter-warning'' \<or> code = Some ''abusefilter-disallowed'' then
        (case loadMessagesIfMissing env [case code of Some c \<Rightarrow> c | None \<Rightarrow> []] of
           Some e \<Rightarrow> Inl e
         | None \<Rightarrow>
             (case abusefilter err of
                None \<Rightarrow> Inl JsTypeError
              | Some filterDescription \<Rightarrow>
                  let description =
                        mwMessagePlain env (case code of Some c \<Rightarrow> c | None \<Rightarrow> [])
                          filterDescription
                  in (case parseCode env description of
                        Inl e \<Rightarrow> Inl e
                      | Inr html \<Rightarrow>
                          if html \<noteq> None \<and> html \<noteq> Some []
                          then Inr (case html of Some h \<Rightarrow> h | None \<Rightarrow> [], True)
                          else Inr (cd_s env ''error-abusefilter'' [filterDescription],
                                    False))))
      else if code = Some ''editconflict'' then
        Inr (cd_s env ''error-editconflict'' [], False)
      else if code = Some ''blocked'' then
        Inr (cd_s env ''error-blocked'' [], False)
      else if code = Some ''missingtitle'' then
        Inr (cd_s env ''error-pagedeleted'' [], False)
      else
        (case unknownApiErrorText env code (info err) of
           Inl e \<Rightarrow> Inl e
         | Inr text \<Rightarrow> Inr (cd_s env ''error-pagenotedited'' [] @ '' '' @ text, False)))"

text \<open>
  \<open>edit\<close>, given what the awaited request came to: \<open>Inl\<close> the exception that
  \<open>handleApiReject\<close> threw, \<open>Inr\<close> the response. The \<open>CdError\<close> that the \<open>catch\<close> block
  throws has \<open>apiData: resp\<close>, and \<open>resp\<close> is still undefined there.
\<close>

definition edit ::
  "editCollaborators \<Rightarrow> page \<Rightarrow> exn + editResponse \<Rightarrow> exn + (page \<times> string)" where
  "edit env p response =
     (case response of
        Inr resp \<Rightarrow> Inr (p\<lparr>pageId := Some (editPageid resp)\<rparr>, newtimestamp resp)
      | Inl e \<Rightarrow>
          (case e of
             CdError d \<Rightarrow>
               if errorType d = ''network'' then Inl e
               else
                 (let noError = Inl (CdError \<lparr>errorType = ''api'',
                        errorDataCode = Some ''error'', errorApiData = None,
                        errorDetails = Some \<lparr>detailsCode = None, message = None,
                          isRawMessage = False, logMessage = LogData (errorApiData d)\<rparr>\<rparr>)
                  in case errorApiData d of
                    None \<Rightarrow> noError
                  | Some data \<Rightarrow>
                      (case error data of
                         None \<Rightarrow> noError
                       | Some err \<Rightarrow>
                           (case errorMessage env err of
                              Inl thrown \<Rightarrow> Inl thrown
                            | Inr (text, raw) \<Rightarrow>
                                Inl (CdError \<lparr>errorType = ''api'',
                                  errorDataCode = Some ''error'', errorApiData = None,
                                  errorDetails = Some \<lparr>detailsCode = errorCode err,
                                    message = Some text, isRawMessage = raw,
                                    logMessage = LogCodeAndData (errorCode err) data\<rparr>\<rparr>))))
           | _ \<Rightarrow> Inl e))"


text \<open>
  Modelled from the spec: \<open>cd.s\<close> of cd.js and \<open>unknownApiErrorText\<close> of apiWrappers.js,
  which are not among the sources. The specification (4.4, 8) asks that the message for
  the spam blacklist include the matched pattern and that the message for an unknown
  failure include the diagnostic text that the collaborator provided. Here \<open>cd.s\<close>
  writes the name of the message and each parameter in brackets, and
  \<open>unknownApiErrorText\<close> the code, a colon and the info. The other three collaborators
  succeed and return their argument.
\<close>

definition specEditCollaborators :: editCollaborators where
  "specEditCollaborators =
     \<lparr>cd_s = (\<lambda>name params. name @
        concat (map (\<lambda>param. ''['' @ (case param of None \<Rightarrow> ''undefined'' | Some v \<Rightarrow> v) @ '']'')
          params)),
      loadMessagesIfMissing = (\<lambda>names. None),
      mwMessagePlain = (\<lambda>name param. case param of None \<Rightarrow> name | Some v \<Rightarrow> v),
      parseCode = (\<lambda>wikitext. Inr (Some wikitext)),
      unknownApiErrorText = (\<lambda>errorCode errorInfo. Inr
        ((case errorCode of None \<Rightarrow> ''undefined'' | Some v \<Rightarrow> v) @ '': '' @
         (case errorInfo of None \<Rightarrow> ''undefined'' | Some v \<Rightarrow> v)))\<rparr>"

text \<open>
  The kind that the specification (3, 4.4) gives a failure, by its code. The code under
  study has no such field; the definition follows the words of the specification and
  serves to compare.
\<close>

definition specifiedKind :: "string option \<Rightarrow> string" where
  "specifiedKind failureCode =
     (if failureCode = Some ''spamblacklist'' then ''spam-blacklist''
      else if failureCode = Some ''titleblacklist'' then ''title-blacklist''
      else if failureCode = Some ''abusefilter-warning'' then ''abuse-filter-warning''
      else if failureCode = Some ''abusefilter-disallowed'' then ''abuse-filter-disallowed''
      else if failureCode = Some ''editconflict'' then ''edit-conflict''
      else if failureCode = Some ''blocked'' then ''blocked''
      else if failureCode = Some ''missingtitle'' then ''page-deleted''
      else ''unknown'')"

definition thrownDetails :: "exn + (page \<times> string) \<Rightarrow> details option" where
  \<comment> \<open>The \<open>details\<close> of the \<open>CdError\<close> that a call of \<open>edit\<close> has thrown.\<close>
  "thrownDetails outcome =
     (case outcome of
        Inl (CdError d) \<Rightarrow> errorDetails d
      | _ \<Rightarrow> None)"

definition exampleFailure :: "apiError \<Rightarrow> cdErrorData" where
  \<comment> \<open>The data of the \<open>CdError\<close> of a request that the API answered with an error.\<close>
  "exampleFailure err =
     \<lparr>errorType = ''api'', errorDataCode = Some ''error'',
      errorApiData = Some \<lparr>error = Some err\<rparr>, errorDetails = None\<rparr>"

section \<open>Autocomplete.js\<close>

text \<open>
  The state that the \<open>values\<close> functions of a collection keep in \<open>this.mentions\<close>,
  \<open>this.wikilinks\<close> or \<open>this.templates\<close>. \<open>snapshot\<close> is undefined until the first query.
  An array that \<open>values[9] = ...\<close> has extended has holes: its elements are options.
  \<open>byText\<close> is a map from texts to the arrays stored under them; the properties that
  the object inherits from its prototype are not modelled.
\<close>

record channel =
  snapshot :: "string option"
  cache :: "string list"
  byText :: "string \<rightharpoonup> string option list"

definition newChannel :: channel where
  \<comment> \<open>\<open>{ byText: {}, cache: [] }\<close>\<close>
  "newChannel = \<lparr>snapshot = None, cache = [], byText = Map.empty\<rparr>"

text \<open>
  What the collections read from outside: \<open>removeDuplicates\<close> of util.js,
  \<open>cd.g.CURRENT_USER_NAME\<close>, the test of \<open>cd.g.COLON_NAMESPACES_PREFIX_REGEXP\<close>, the
  names of the namespaces 2, 6 and 14, and the default user names given to the
  constructor.
\<close>

record autocompleteEnv =
  removeDuplicates :: "string option list \<Rightarrow> string option list"
  currentUserName :: string
  colonNamespacesPrefix :: "string \<Rightarrow> bool"
  userNamespace :: string
  fileNamespace :: string
  categoryNamespace :: string
  defaultUserNames :: "string list"

record item =
  itemKey :: string
  itemValue :: string
  itemEndOffset :: nat

datatype kind = Mentions | Wikilinks | Templates

definition transform :: "autocompleteEnv \<Rightarrow> kind \<Rightarrow> string \<Rightarrow> string" where
  "transform env k name0 =
     (let name = trim name0 in
      case k of
        Mentions \<Rightarrow> ''@[['' @ userNamespace env @ '':'' @ name @ ''|'' @ name @ '']]''
      | Wikilinks \<Rightarrow>
          ''[['' @
          (if startsWithRegexp (fileNamespace env @ '':'') name \<or>
              startsWithRegexp (categoryNamespace env @ '':'') name
           then '':'' @ name else name) @ '']]''
      | Templates \<Rightarrow> ''{{'' @ name @ ''}}'')"

definition getEndOffset :: "kind \<Rightarrow> nat" where
  "getEndOffset k = (case k of Templates \<Rightarrow> 2 | _ \<Rightarrow> 0)"

definition prepareValues :: "autocompleteEnv \<Rightarrow> kind \<Rightarrow> string option list \<Rightarrow> item list" where
  \<comment> \<open>\<open>filter(defined)\<close> keeps the elements that are not undefined.\<close>
  "prepareValues env k arr =
     map (\<lambda>i. \<lparr>itemKey = i, itemValue = transform env k i, itemEndOffset = getEndOffset k\<rparr>)
       (List.map_filter (\<lambda>x. x) (removeDuplicates env arr))"

definition setIndex9 :: "string option list \<Rightarrow> string \<Rightarrow> string option list" where
  \<comment> \<open>\<open>values[9] = v\<close>: a shorter array grows, with holes up to index 9.\<close>
  "setIndex9 values v =
     (if length values \<le> 9 then values @ replicate (9 - length values) None @ [Some v]
      else values[9 := Some v])"

fun stringIncludes :: "string \<Rightarrow> string \<Rightarrow> bool" where
  "stringIncludes [] p = (p = [])"
| "stringIncludes (c # cs) p = (startsWith (c # cs) p \<or> stringIncludes cs p)"

definition snapshotString :: "string option \<Rightarrow> string" where
  \<comment> \<open>The argument of \<open>startsWith\<close> as a string.\<close>
  "snapshotString snap = (case snap of None \<Rightarrow> ''undefined'' | Some t \<Rightarrow> t)"

definition countSpaces :: "string \<Rightarrow> nat" where
  \<comment> \<open>\<open>(text.match(/ /g) || []).length\<close>\<close>
  "countSpaces text = length (filter (\<lambda>c. c = CHR '' '') text)"

definition removeSelf :: "autocompleteEnv \<Rightarrow> string list \<Rightarrow> string list" where
  "removeSelf env arr = filter (\<lambda>n. n \<noteq> currentUserName env) arr"

datatype effect =
    Callback "item list"
  | Request string

text \<open>
  Each \<open>values\<close> function is asynchronous. Its part up to the \<open>await\<close> runs when the
  query arrives: the model returns the new state and what that part did, the calls of
  \<open>callback\<close> and the request to the name lookup (\<open>getRelevantUserNames\<close>,
  \<open>getRelevantPageNames\<close>, \<open>getRelevantTemplateNames\<close>). The part after the \<open>await\<close>
  runs when the request settles, on the state of that moment, with the text of the
  query: \<open>Inl\<close> a rejection, \<open>Inr\<close> the names.
\<close>

definition marker :: "kind \<Rightarrow> string" where
  \<comment> \<open>What \<open>text.includes\<close> looks for: \<open>{{\<close> in the templates collection, \<open>[[\<close> in the
      other two.\<close>
  "marker k = (case k of Templates \<Rightarrow> ''{{'' | _ \<Rightarrow> ''[['')"

definition mentionsIsLikelyName :: "string \<Rightarrow> bool" where
  "mentionsIsLikelyName text =
     (text \<noteq> [] \<and> length text \<le> 85 \<and>
      \<not> list_ex (\<lambda>c. c \<in> set ''#<>[]|{}/@:'') text \<and>
      countSpaces text \<le> 4)"

definition mentionsValues :: "autocompleteEnv \<Rightarrow> channel \<Rightarrow> string \<Rightarrow> channel \<times> effect list" where
  "mentionsValues env ch text =
     (if text \<noteq> [] \<and> snapshot ch = Some text then (ch, [])
      else
        let ch1 = (if \<not> startsWith text (snapshotString (snapshot ch))
                   then ch\<lparr>cache := []\<rparr> else ch);
            ch2 = ch1\<lparr>snapshot := Some text\<rparr>
        in if stringIncludes text (marker Mentions) then (ch2, [Callback []])
           else
             (case byText ch2 text of
                Some stored \<Rightarrow> (ch2, [Callback (prepareValues env Mentions stored)])
              | None \<Rightarrow>
                  let matches = search text (removeSelf env (defaultUserNames env));
                      isLikelyName = mentionsIsLikelyName text;
                      values =
                        (if isLikelyName
                         then setIndex9
                                (map Some (search text
                                  (if matches = [] then matches @ cache ch2 else matches)))
                                (trim text)
                         else map Some matches)
                  in (ch2, Callback (prepareValues env Mentions values) #
                           (if isLikelyName \<and> matches = [] then [Request text] else []))))"

definition mentionsSettled ::
  "autocompleteEnv \<Rightarrow> channel \<Rightarrow> string \<Rightarrow> unit + string list \<Rightarrow> channel \<times> effect list" where
  "mentionsSettled env ch text result =
     (case result of
        Inl _ \<Rightarrow> (ch, [])
      | Inr names \<Rightarrow>
          let values = removeSelf env names;
              ch1 = ch\<lparr>cache := values\<rparr>;
              values9 = setIndex9 (map Some values) (trim text);
              ch2 = ch1\<lparr>byText := (byText ch1)(text \<mapsto> values9)\<rparr>
          in if snapshot ch2 \<noteq> Some text then (ch2, [])
             else (ch2, [Callback (prepareValues env Mentions values9)]))"

definition wikilinksText :: "autocompleteEnv \<Rightarrow> string \<Rightarrow> string" where
  \<comment> \<open>\<open>if (cd.g.COLON_NAMESPACES_PREFIX_REGEXP.test(text)) text = text.slice(1)\<close>\<close>
  "wikilinksText env text = (if colonNamespacesPrefix env text then drop 1 text else text)"

definition wikilinksIsLikelyName :: "autocompleteEnv \<Rightarrow> string \<Rightarrow> bool" where
  "wikilinksIsLikelyName env text =
     (text \<noteq> [] \<and> length text \<le> 255 \<and>
      \<not> list_ex (\<lambda>c. c \<in> set ''#<>[]|{}'') text \<and>
      (\<not> startsWith text '':'' \<or> colonNamespacesPrefix env text) \<and>
      countSpaces text \<le> 9)"

definition templatesIsLikelyName :: "string \<Rightarrow> bool" where
  "templatesIsLikelyName text =
     (text \<noteq> [] \<and> length text \<le> 255 \<and>
      \<not> list_ex (\<lambda>c. c \<in> set ''#<>[]|{}'') text \<and>
      countSpaces text \<le> 9)"

text \<open>
  The wikilinks and the templates collection differ in the text they start from, in the
  opening that ends the query (\<open>[[\<close> or \<open>{{\<close>) and in \<open>isLikelyName\<close>; the rest of their
  \<open>values\<close> functions is the same text, modelled once.
\<close>

definition pageNamesValues ::
  "autocompleteEnv \<Rightarrow> kind \<Rightarrow> string \<Rightarrow> bool \<Rightarrow> channel \<Rightarrow> string \<Rightarrow> channel \<times> effect list" where
  "pageNamesValues env k opening isLikelyName ch text =
     (let ch1 = (if \<not> startsWith text (snapshotString (snapshot ch))
                 then ch\<lparr>cache := []\<rparr> else ch);
          ch2 = ch1\<lparr>snapshot := Some text\<rparr>
      in if stringIncludes text opening then (ch2, [Callback []])
         else
           (case byText ch2 text of
              Some stored \<Rightarrow> (ch2, [Callback (prepareValues env k stored)])
            | None \<Rightarrow>
                let values =
                      (if isLikelyName
                       then setIndex9 (map Some (search text (cache ch2))) (trim text)
                       else [])
                in (ch2, Callback (prepareValues env k values) #
                         (if isLikelyName then [Request text] else []))))"

definition pageNamesSettled ::
  "autocompleteEnv \<Rightarrow> kind \<Rightarrow> channel \<Rightarrow> string \<Rightarrow> unit + string list \<Rightarrow> channel \<times> effect list" where
  "pageNamesSettled env k ch text result =
     (case result of
        Inl _ \<Rightarrow> (ch, [])
      | Inr values \<Rightarrow>
          let ch1 = ch\<lparr>cache := values\<rparr>;
              values9 = setIndex9 (map Some values) (trim text);
              ch2 = ch1\<lparr>byText := (byText ch1)(text \<mapsto> values9)\<rparr>
          in if snapshot ch2 \<noteq> Some text then (ch2, [])
             else (ch2, [Callback (prepareValues env k values9)]))"

definition wikilinksValues :: "autocompleteEnv \<Rightarrow> channel \<Rightarrow> string \<Rightarrow> channel \<times> effect list" where
  "wikilinksValues env ch text0 =
     (let text = wikilinksText env text0
      in pageNamesValues env Wikilinks (marker Wikilinks) (wikilinksIsLikelyName env text) ch text)"

definition templatesValues :: "autocompleteEnv \<Rightarrow> channel \<Rightarrow> string \<Rightarrow> channel \<times> effect list" where
  "templatesValues env ch text =
     pageNamesValues env Templates (marker Templates) (templatesIsLikelyName text) ch text"

text \<open>
  The three collections under one name. \<open>queryText\<close> is the text that a query works
  with, the one that its request and the later settlement carry.
\<close>

definition queryText :: "autocompleteEnv \<Rightarrow> kind \<Rightarrow> string \<Rightarrow> string" where
  "queryText env k text = (case k of Wikilinks \<Rightarrow> wikilinksText env text | _ \<Rightarrow> text)"

definition valuesFor :: "autocompleteEnv \<Rightarrow> kind \<Rightarrow> channel \<Rightarrow> string \<Rightarrow> channel \<times> effect list" where
  "valuesFor env k ch text =
     (case k of
        Mentions \<Rightarrow> mentionsValues env ch text
      | Wikilinks \<Rightarrow> wikilinksValues env ch text
      | Templates \<Rightarrow> templatesValues env ch text)"

definition settled ::
  "autocompleteEnv \<Rightarrow> kind \<Rightarrow> channel \<Rightarrow> string \<Rightarrow> unit + string list \<Rightarrow> channel \<times> effect list" where
  "settled env k ch text result =
     (case k of
        Mentions \<Rightarrow> mentionsSettled env ch text result
      | _ \<Rightarrow> pageNamesSettled env k ch text result)"

datatype event =
    Query string
  | Settle string "unit + string list"

definition step :: "autocompleteEnv \<Rightarrow> kind \<Rightarrow> channel \<Rightarrow> event \<Rightarrow> channel \<times> effect list" where
  "step env k ch ev =
     (case ev of
        Query text \<Rightarrow> valuesFor env k ch text
      | Settle text result \<Rightarrow> settled env k ch text result)"

text \<open>A run of events on a channel: the final state and what each event did.\<close>

fun run :: "autocompleteEnv \<Rightarrow> kind \<Rightarrow> channel \<Rightarrow> event list \<Rightarrow> channel \<times> effect list list" where
  "run env k ch [] = (ch, [])"
| "run env k ch (ev # evs) =
     (let (ch1, out) = step env k ch ev;
          (ch2, outs) = run env k ch1 evs
      in (ch2, out # outs))"

definition isRequest :: "effect \<Rightarrow> bool" where
  "isRequest out = (case out of Request _ \<Rightarrow> True | Callback _ \<Rightarrow> False)"

definition isCallback :: "effect \<Rightarrow> bool" where
  "isCallback out = (case out of Callback _ \<Rightarrow> True | Request _ \<Rightarrow> False)"

definition requests :: "effect list list \<Rightarrow> nat" where
  \<comment> \<open>How many calls of the name lookup a run has made.\<close>
  "requests outs = length (filter isRequest (concat outs))"

text \<open>
  An environment to evaluate the model in: a wiki with English namespace names, a user
  \<open>Me\<close>, no default user names, and \<open>removeDuplicates\<close> keeping the first of equal
  elements.
\<close>

definition exampleEnv :: autocompleteEnv where
  "exampleEnv =
     \<lparr>removeDuplicates = (\<lambda>arr. rev (remdups (rev arr))),
      currentUserName = ''Me'',
      colonNamespacesPrefix = (\<lambda>text. startsWithRegexp '':File:'' text \<or>
         startsWithRegexp '':Category:'' text),
      userNamespace = ''User'', fileNamespace = ''File'', categoryNamespace = ''Category'',
      defaultUserNames = []\<rparr>"


definition exampleStaleChannel :: channel where
  \<comment> \<open>The mentions channel after the queries \<open>Ja\<close> and \<open>Jack\<close>, both lookups pending.\<close>
  "exampleStaleChannel =
     fst (run exampleEnv Mentions newChannel [Query ''Ja'', Query ''Jack''])"

definition exampleMemoChannel :: channel where
  \<comment> \<open>The wikilinks channel after the query \<open>Ja\<close> and the fulfilment of its lookup.\<close>
  "exampleMemoChannel =
     fst (run exampleEnv Wikilinks newChannel
       [Query ''Ja'', Settle ''Ja'' (Inr [''Jane'', ''Jack''])])"

section \<open>options.js\<close>

text \<open>
  The strings of options.js are modelled in full: a string is the list of its UTF-16
  code units, each the number of the unit, so that every character that the pattern of
  \<open>unpackVisits\<close> and \<open>trim\<close> tell apart is there. \<open>units\<close> writes a string of the
  range 0..255 as code units.
\<close>

type_synonym codeUnits = "int list"

definition units :: "string \<Rightarrow> codeUnits" where
  "units s = map of_char s"

definition isLineTerminatorUnit :: "int \<Rightarrow> bool" where
  \<comment> \<open>LF, CR, U+2028 and U+2029: what \<open>.\<close> refuses and where \<open>^\<close> and \<open>$\<close> hold under
      the \<open>m\<close> flag.\<close>
  "isLineTerminatorUnit u = (u = 0x0A \<or> u = 0x0D \<or> u = 0x2028 \<or> u = 0x2029)"

definition isWhiteSpaceUnit :: "int \<Rightarrow> bool" where
  \<comment> \<open>What \<open>trim\<close> strips: the white space of the language (tab, VT, FF, U+FEFF and the
      space separators of Unicode) and its line terminators.\<close>
  "isWhiteSpaceUnit u =
     (u = 0x09 \<or> u = 0x0B \<or> u = 0x0C \<or> u = 0x20 \<or> u = 0xA0 \<or> u = 0x1680 \<or>
      (0x2000 \<le> u \<and> u \<le> 0x200A) \<or> u = 0x202F \<or> u = 0x205F \<or> u = 0x3000 \<or>
      u = 0xFEFF \<or> isLineTerminatorUnit u)"

definition trimUnits :: "codeUnits \<Rightarrow> codeUnits" where
  \<comment> \<open>\<open>s.trim()\<close>\<close>
  "trimUnits s = rev (dropWhile isWhiteSpaceUnit (rev (dropWhile isWhiteSpaceUnit s)))"

definition isDigitUnit :: "int \<Rightarrow> bool" where
  \<comment> \<open>\<open>\d\<close>: the digits 0 to 9.\<close>
  "isDigitUnit u = (0x30 \<le> u \<and> u \<le> 0x39)"

text \<open>
  A visits object is modelled by its properties in the order in which \<open>Object.keys\<close>
  gives them, each key once; what \<open>unpackVisits\<close> builds is a map from keys to arrays.
  In the definitions below 44 is the comma, 32 the space and 10 the line feed.
\<close>

fun joinWith :: "'a list \<Rightarrow> 'a list list \<Rightarrow> 'a list" where
  \<comment> \<open>\<open>arr.join(separator)\<close>\<close>
  "joinWith separator [] = []"
| "joinWith separator [x] = x"
| "joinWith separator (x # y # ys) = x @ separator @ joinWith separator (y # ys)"

fun splitWhere :: "('a \<Rightarrow> bool) \<Rightarrow> 'a list \<Rightarrow> 'a list list" where
  \<comment> \<open>The pieces of a string between the characters that separate.\<close>
  "splitWhere isSeparator [] = [[]]"
| "splitWhere isSeparator (c # cs) =
     (if isSeparator c then [] # splitWhere isSeparator cs
      else (case splitWhere isSeparator cs of
              [] \<Rightarrow> [[c]]
            | piece # pieces \<Rightarrow> (c # piece) # pieces))"

definition split :: "codeUnits \<Rightarrow> codeUnits list" where
  \<comment> \<open>\<open>s.split(',')\<close>\<close>
  "split s = splitWhere (\<lambda>u. u = 44) s"

definition packVisits :: "(codeUnits \<times> codeUnits list) list \<Rightarrow> codeUnits" where
  "packVisits visits =
     trimUnits (concat (map (\<lambda>(key, timestamps). key @ [44] @ joinWith [44] timestamps @ [10])
       visits))"

text \<open>
  The pattern \<open>/^(\d+), *(.+)$/gm\<close> on one line, a maximal piece of the string without
  line terminators: the two groups of the match, if the line matches. \<open>\d+\<close> takes
  every leading digit, \<open> *\<close> every space that follows the comma; when nothing is left
  for \<open>.+\<close>, the pattern gives back one space, if it has taken one.
\<close>

definition visitsLine :: "codeUnits \<Rightarrow> (codeUnits \<times> codeUnits) option" where
  "visitsLine line =
     (let key = takeWhile isDigitUnit line; afterKey = dropWhile isDigitUnit line
      in if key = [] then None
         else (case afterKey of
                 [] \<Rightarrow> None
               | u # afterComma \<Rightarrow>
                   if u \<noteq> 44 then None
                   else
                     let spaces = takeWhile (\<lambda>u. u = 32) afterComma;
                         rest = dropWhile (\<lambda>u. u = 32) afterComma
                     in if rest \<noteq> [] then Some (key, rest)
                        else if spaces \<noteq> [] then Some (key, [32])
                        else None))"

text \<open>
  The loop of \<open>unpackVisits\<close>. A match of the pattern starts where a line starts and
  ends where that line ends, and the next search goes on from there: the loop visits
  the lines of the string in order, split at every line terminator, and stores the
  groups of each line that matches.
\<close>

definition unpackVisits :: "codeUnits \<Rightarrow> (codeUnits \<rightharpoonup> codeUnits list)" where
  "unpackVisits visitsString =
     foldl (\<lambda>visits line.
         case visitsLine line of
           None \<Rightarrow> visits
         | Some (key, timestamps) \<Rightarrow> visits(key \<mapsto> split timestamps))
       Map.empty (splitWhere isLineTerminatorUnit visitsString)"

definition packedLine :: "codeUnits \<times> codeUnits list \<Rightarrow> codeUnits" where
  \<comment> \<open>The line that \<open>packVisits\<close> writes for one key, without its line feed.\<close>
  "packedLine kv = fst kv @ [44] @ joinWith [44] (snd kv)"

section \<open>Properties of Autocomplete.search\<close>

lemma compareItems_le0:
  "compareItems t x y \<le> 0 \<longleftrightarrow> startsWithRegexp t x \<or> \<not> startsWithRegexp t y"
  by (auto simp: compareItems_def Let_def)

lemma insertBy_first:
  "startsWithRegexp t x \<Longrightarrow> insertBy (compareItems t) x ys = x # ys"
  by (cases ys) (simp_all add: compareItems_le0)

lemma insertBy_rest:
  "\<not> startsWithRegexp t x \<Longrightarrow>
   insertBy (compareItems t) x (filter (\<lambda>y. \<not> startsWithRegexp t y) zs) =
   x # filter (\<lambda>y. \<not> startsWithRegexp t y) zs"
proof (cases "filter (\<lambda>y. \<not> startsWithRegexp t y) zs")
  case Nil
  then show ?thesis by simp
next
  case (Cons a list)
  then have "a \<in> set (filter (\<lambda>y. \<not> startsWithRegexp t y) zs)" by simp
  then have "\<not> startsWithRegexp t a" by simp
  with Cons show ?thesis by (simp add: compareItems_le0)
qed

lemma insertBy_later:
  "\<not> startsWithRegexp t x \<Longrightarrow>
   insertBy (compareItems t) x
     (filter (startsWithRegexp t) xs @ filter (\<lambda>y. \<not> startsWithRegexp t y) zs) =
   filter (startsWithRegexp t) xs @ x # filter (\<lambda>y. \<not> startsWithRegexp t y) zs"
  by (induction xs) (simp_all add: compareItems_le0 insertBy_rest)

lemma sortBy_compareItems:
  "sortBy (compareItems t) xs =
   filter (startsWithRegexp t) xs @ filter (\<lambda>y. \<not> startsWithRegexp t y) xs"
proof (induction xs)
  case Nil
  show ?case by (simp add: sortBy_def)
next
  case (Cons x xs)
  have unfold: "sortBy (compareItems t) (x # xs) =
      insertBy (compareItems t) x (sortBy (compareItems t) xs)"
    by (simp add: sortBy_def)
  show ?case
  proof (cases "startsWithRegexp t x")
    case True
    then show ?thesis unfolding unfold Cons.IH by (simp add: insertBy_first)
  next
    case False
    then show ?thesis unfolding unfold Cons.IH by (simp add: insertBy_later)
  qed
qed

text \<open>
  C7. \<open>search(text, list)\<close> returns the elements of \<open>list\<close> that contain \<open>text\<close> up to
  case: first those that start with it, then the others, each group in the order of the
  input. For the query \<open>house\<close> and the list housekeeper, built the house, mouse it
  returns housekeeper and built the house, in that order.
\<close>

theorem search_prefix_matches_first:
  "search text list =
     filter (startsWithRegexp text) (filter (containsRegexp text) list) @
     filter (\<lambda>entry. \<not> startsWithRegexp text entry) (filter (containsRegexp text) list)
   \<and> search ''house'' [''housekeeper'', ''built the house'', ''mouse''] =
     [''housekeeper'', ''built the house'']"
proof
  show "search text list =
     filter (startsWithRegexp text) (filter (containsRegexp text) list) @
     filter (\<lambda>entry. \<not> startsWithRegexp text entry) (filter (containsRegexp text) list)"
    unfolding search_def sortBy_compareItems by simp
  show "search ''house'' [''housekeeper'', ''built the house'', ''mouse''] =
     [''housekeeper'', ''built the house'']"
    by code_simp
qed

theorem search_prefix_matches_first_witness:
  "search ''a'' [''ba'', ''Ab'', ''c'', ''ab''] = [''Ab'', ''ab'', ''ba'']"
proof -
  have "search ''a'' [''ba'', ''Ab'', ''c'', ''ab''] =
     filter (startsWithRegexp ''a'') (filter (containsRegexp ''a'') [''ba'', ''Ab'', ''c'', ''ab'']) @
     filter (\<lambda>entry. \<not> startsWithRegexp ''a'' entry)
       (filter (containsRegexp ''a'') [''ba'', ''Ab'', ''c'', ''ab''])"
    using search_prefix_matches_first [of "''a''" "[''ba'', ''Ab'', ''c'', ''ab'']"] by blast
  also have "\<dots> = [''Ab'', ''ab'', ''ba'']" by code_simp
  finally show ?thesis .
qed


section \<open>Properties of Page.modifyCode\<close>

lemma trimStart_append_newline:
  "trimStart (s @ [CHR 0x0A]) =
     (if list_all isWhiteSpace s then [] else trimStart s @ [CHR 0x0A])"
proof (cases "list_all isWhiteSpace s")
  case True
  then have "\<forall>c\<in>set (s @ [CHR 0x0A]). isWhiteSpace c"
    by (auto simp: list_all_iff isWhiteSpace_def)
  then have "dropWhile isWhiteSpace (s @ [CHR 0x0A]) = []"
    by (simp only: dropWhile_eq_Nil_conv)
  with True show ?thesis by (simp add: trimStart_def)
next
  case False
  then obtain c where "c \<in> set s" "\<not> isWhiteSpace c" by (auto simp: list_all_iff)
  then have "dropWhile isWhiteSpace (s @ [CHR 0x0A]) = dropWhile isWhiteSpace s @ [CHR 0x0A]"
    by (simp add: dropWhile_append1)
  with False show ?thesis by (simp add: trimStart_def)
qed

text \<open>
  C4, as the code has it. With bottom placement \<open>newPageCode\<close> is the existing code with
  one line feed appended, whatever the code ends with, then stripped of leading white
  space, and then the comment: for a code with a character that is not white space, the
  code without its leading white space, one more line feed and the comment; for an
  empty or all-blank code, the comment alone. The result depends on the code and the
  comment only, so the same inputs give the same output.
\<close>

theorem modifyCode_bottom:
  "newPageCode (modifyCode env pageCode comment False) =
     (if list_all isWhiteSpace pageCode then comment
      else trimStart pageCode @ [CHR 0x0A] @ comment)
   \<and> modifyCode env pageCode comment False = modifyCode env' pageCode comment False"
proof
  have appended: "newPageCode (modifyCode env pageCode comment False) =
      trimStart (pageCode @ [CHR 0x0A]) @ comment"
    by (simp add: modifyCode_def Let_def)
  show "newPageCode (modifyCode env pageCode comment False) =
     (if list_all isWhiteSpace pageCode then comment
      else trimStart pageCode @ [CHR 0x0A] @ comment)"
  proof (cases "list_all isWhiteSpace pageCode")
    case True
    then have "trimStart (pageCode @ [CHR 0x0A]) = []"
      by (simp add: trimStart_append_newline)
    with appended True show ?thesis by simp
  next
    case False
    then have "trimStart (pageCode @ [CHR 0x0A]) = trimStart pageCode @ [CHR 0x0A]"
      by (simp add: trimStart_append_newline)
    with appended False show ?thesis by simp
  qed
  show "modifyCode env pageCode comment False = modifyCode env' pageCode comment False"
    by (simp add: modifyCode_def)
qed

theorem modifyCode_bottom_witness:
  "newPageCode (modifyCode exampleCollaborators (CHR 0x0A # '' Talk'') ''== New =='' False) =
     ''Talk'' @ [CHR 0x0A] @ ''== New ==''"
  using modifyCode_bottom [of exampleCollaborators "CHR 0x0A # '' Talk''" "''== New ==''"]
  by (simp add: trimStart_def isWhiteSpace_def)

text \<open>
  C4 as stated fails: a code that ends with a line feed, as every code that \<open>getCode\<close>
  loads does, gets a second one before the comment, and an empty code gets none.
\<close>

theorem modifyCode_bottom_counterexample:
  "newPageCode (modifyCode exampleCollaborators (''Talk'' @ [CHR 0x0A]) ''== New =='' False) =
     ''Talk'' @ [CHR 0x0A, CHR 0x0A] @ ''== New ==''
   \<and> newPageCode (modifyCode exampleCollaborators [] ''== New =='' False) = ''== New ==''"
  by (simp add: modifyCode_def trimStart_def isWhiteSpace_def)

lemma searchFrom_Some:
  "searchFrom m s i0 = Some i \<Longrightarrow>
     i0 \<le> i \<and> i \<le> length s \<and> atLineStart s i \<and> m (drop i s) \<and>
     (\<forall>j. i0 \<le> j \<and> j < i \<longrightarrow> \<not> (atLineStart s j \<and> m (drop j s)))"
proof (induction m s i0 rule: searchFrom.induct)
  case (1 m s i0)
  show ?case
  proof (cases "atLineStart s i0 \<and> m (drop i0 s)")
    case True
    with "1.prems" have "i = i0" "i0 \<le> length s"
      by (subst (asm) searchFrom.simps, simp split: if_splits)+
    with True show ?thesis by auto
  next
    case False
    with "1.prems" have le: "\<not> length s < i0" and rec: "searchFrom m s (Suc i0) = Some i"
      by (subst (asm) searchFrom.simps, simp split: if_splits)+
    from "1.IH" [OF le False rec]
    have IH: "Suc i0 \<le> i \<and> i \<le> length s \<and> atLineStart s i \<and> m (drop i s) \<and>
       (\<forall>j. Suc i0 \<le> j \<and> j < i \<longrightarrow> \<not> (atLineStart s j \<and> m (drop j s)))" .
    have "\<not> (atLineStart s j \<and> m (drop j s))" if "i0 \<le> j" "j < i" for j
    proof (cases "j = i0")
      case True
      with False show ?thesis by simp
    next
      case False
      with that IH show ?thesis by auto
    qed
    with IH show ?thesis by auto
  qed
qed

lemma slice_nat:
  "sliceTo s (int i) = take i s" "sliceFrom s (int i) = drop i s"
  by (simp_all add: sliceTo_def sliceFrom_def relativeIndex_def min_def)

lemma equals_not_terminator: "\<not> isLineTerminator CHR ''=''"
  by (simp add: isLineTerminator_def)

lemma lazyDotThen_equals:
  "CHR ''='' \<in> set (takeWhile (\<lambda>c. \<not> isLineTerminator c) r) \<Longrightarrow>
   lazyDotThen (\<lambda>x. startsWith x [CHR ''='']) r"
proof (induction r)
  case Nil
  then show ?case by simp
next
  case (Cons c cs)
  then show ?case by (cases "c = CHR ''=''") (auto simp: startsWith_def split: if_splits)
qed

lemma lazyDotThen_run:
  "lazyDotThen (\<lambda>x. startsWith x (replicate k CHR ''='')) t \<Longrightarrow> 0 < k \<Longrightarrow>
   CHR ''='' \<in> set (takeWhile (\<lambda>c. \<not> isLineTerminator c) t)"
proof (induction t)
  case Nil
  then show ?case by (cases k) (simp_all add: startsWith_def)
next
  case (Cons c cs)
  show ?case
  proof (cases "startsWith (c # cs) (replicate k CHR ''='')")
    case True
    with Cons.prems(2) have "c = CHR ''=''" by (cases k) (simp_all add: startsWith_def)
    then show ?thesis by (simp add: equals_not_terminator)
  next
    case False
    with Cons.prems have "\<not> isLineTerminator c" and "lazyDotThen (\<lambda>x. startsWith x (replicate k CHR ''='')) cs"
      by simp_all
    with Cons.IH Cons.prems(2) show ?thesis by simp
  qed
qed

lemma takeWhile_run:
  "takeWhile (\<lambda>c. c = x) s = replicate (length (takeWhile (\<lambda>c. c = x) s)) x"
  by (induction s) auto

lemma take_equals_run:
  "k \<le> length (takeWhile (\<lambda>c. c = x) s) \<Longrightarrow> take k s = replicate k x"
proof (induction s arbitrary: k)
  case Nil
  then show ?case by simp
next
  case (Cons c cs)
  then show ?case by (cases k) (auto split: if_splits)
qed

lemma range_from_one: "k \<in> set (rev [1 ..< Suc n]) \<longleftrightarrow> 0 < k \<and> k \<le> n"
  by auto

lemma anyHeadingAt_ex:
  "anyHeadingAt s \<longleftrightarrow>
     (\<exists>k. 0 < k \<and> k \<le> length (takeWhile (\<lambda>c. c = CHR ''='') s) \<and>
        lazyDotThen (\<lambda>x. startsWith x (replicate k CHR ''='')) (drop k s))"
  unfolding anyHeadingAt_def Let_def list_ex_iff Bex_def range_from_one by blast

lemma anyHeadingAt_iff:
  "anyHeadingAt s \<longleftrightarrow>
     (\<exists>r. s = CHR ''='' # r \<and> CHR ''='' \<in> set (takeWhile (\<lambda>c. \<not> isLineTerminator c) r))"
proof
  assume "anyHeadingAt s"
  then obtain k where k: "0 < k" "k \<le> length (takeWhile (\<lambda>c. c = CHR ''='') s)"
    and lazy: "lazyDotThen (\<lambda>x. startsWith x (replicate k CHR ''='')) (drop k s)"
    unfolding anyHeadingAt_ex by blast
  from lazyDotThen_run [OF lazy k(1)]
  have tail: "CHR ''='' \<in> set (takeWhile (\<lambda>c. \<not> isLineTerminator c) (drop k s))" .
  have run: "take k s = replicate k CHR ''=''"
    by (rule take_equals_run [OF k(2)])
  have "s = take k s @ drop k s" by simp
  with run have s: "s = replicate k CHR ''='' @ drop k s" by simp
  from k(1) obtain k' where k': "k = Suc k'" by (cases k) auto
  define r where "r = replicate k' CHR ''='' @ drop k s"
  have "s = CHR ''='' # r" using s k' r_def by simp
  moreover have "takeWhile (\<lambda>c. \<not> isLineTerminator c) r =
      replicate k' CHR ''='' @ takeWhile (\<lambda>c. \<not> isLineTerminator c) (drop k s)"
    unfolding r_def by (rule takeWhile_append2) (simp add: equals_not_terminator)
  ultimately show "\<exists>r. s = CHR ''='' # r \<and> CHR ''='' \<in> set (takeWhile (\<lambda>c. \<not> isLineTerminator c) r)"
    using tail by auto
next
  assume "\<exists>r. s = CHR ''='' # r \<and> CHR ''='' \<in> set (takeWhile (\<lambda>c. \<not> isLineTerminator c) r)"
  then obtain r where s: "s = CHR ''='' # r"
    and r: "CHR ''='' \<in> set (takeWhile (\<lambda>c. \<not> isLineTerminator c) r)" by blast
  from s have "1 \<le> length (takeWhile (\<lambda>c. c = CHR ''='') s)" by simp
  moreover from lazyDotThen_equals [OF r] s
  have "lazyDotThen (\<lambda>x. startsWith x (replicate 1 CHR ''='')) (drop 1 s)" by simp
  ultimately show "anyHeadingAt s"
    unfolding anyHeadingAt_ex by (intro exI [of _ 1]) simp
qed


text \<open>
  C3, as the code has it. With top placement, when the search finds a heading at index
  \<open>i\<close> of the comment-hidden code, \<open>newPageCode\<close> is the first \<open>i\<close> characters of the
  original code, the comment, one line feed, and the rest of the original code. The
  index is the first start of a line where \<open>/^(=+).*?\1/m\<close> matches: a line that begins
  with \<open>=\<close> and has another \<open>=\<close> later (lemma \<open>anyHeadingAt_iff\<close>), a heading of any
  level.
\<close>

theorem modifyCode_top:
  assumes "searchFrom anyHeadingAt (hideHtmlComments env pageCode) 0 = Some i"
  shows "newPageCode (modifyCode env pageCode comment True) =
           take i pageCode @ comment @ [CHR 0x0A] @ drop i pageCode
         \<and> atLineStart (hideHtmlComments env pageCode) i
         \<and> anyHeadingAt (drop i (hideHtmlComments env pageCode))
         \<and> (\<forall>j<i. \<not> (atLineStart (hideHtmlComments env pageCode) j \<and>
                anyHeadingAt (drop j (hideHtmlComments env pageCode))))"
  using searchFrom_Some [OF assms] assms
  by (simp add: modifyCode_def Let_def searchAnyHeading_def slice_nat)


theorem modifyCode_top_witness:
  "newPageCode (modifyCode exampleCollaborators
      ''Intro.\<newline>== First ==\<newline>Text.\<newline>'' ''== New ==\<newline>Hello.'' True) =
     ''Intro.\<newline>== New ==\<newline>Hello.\<newline>== First ==\<newline>Text.\<newline>''"
proof -
  have found: "searchFrom anyHeadingAt
      (hideHtmlComments exampleCollaborators ''Intro.\<newline>== First ==\<newline>Text.\<newline>'') 0 = Some 7"
    by code_simp
  from modifyCode_top [OF found, of "''== New ==\<newline>Hello.''"]
  show ?thesis by simp
qed

text \<open>
  C3 as stated fails: the split is not always at the first \<open>== heading ==\<close> line. In
  the page below that line is at index 10, where the section heading pattern of
  \<open>analyzeNewTopicPlacement\<close> finds it, and the comment goes before the third-level
  heading at index 0.
\<close>

theorem modifyCode_top_counterexample:
  "execFrom sectionHeadingAt
      (hideHtmlComments exampleCollaborators ''=== a ===\<newline>== b ==\<newline>'') 0 = Some (10, 18)
   \<and> newPageCode (modifyCode exampleCollaborators ''=== a ===\<newline>== b ==\<newline>'' ''c'' True) =
       ''c\<newline>=== a ===\<newline>== b ==\<newline>''
   \<and> newPageCode (modifyCode exampleCollaborators ''=== a ===\<newline>== b ==\<newline>'' ''c'' True) \<noteq>
       take 10 ''=== a ===\<newline>== b ==\<newline>'' @ ''c'' @ ''\<newline>'' @
       drop 10 ''=== a ===\<newline>== b ==\<newline>''"
  by code_simp


section \<open>Properties of Page.analyzeNewTopicPlacement\<close>

lemma execFrom_None:
  "execFrom m s i = None \<longleftrightarrow>
     (\<forall>j. i \<le> j \<and> j \<le> length s \<and> atLineStart s j \<longrightarrow> m (drop j s) = None)"
proof (induction m s i rule: execFrom.induct)
  case (1 m s i)
  show ?case
  proof (cases "length s < i")
    case True
    then show ?thesis by (subst execFrom.simps) auto
  next
    case False
    show ?thesis
    proof (cases "atLineStart s i \<and> m (drop i s) \<noteq> None")
      case True
      with False show ?thesis by (subst execFrom.simps) auto
    next
      case here: False
      then have none: "(if atLineStart s i then m (drop i s) else None) = None" by auto
      have "execFrom m s i = execFrom m s (Suc i)"
        using False none by (subst execFrom.simps) simp
      also have "\<dots> = None \<longleftrightarrow>
          (\<forall>j. Suc i \<le> j \<and> j \<le> length s \<and> atLineStart s j \<longrightarrow> m (drop j s) = None)"
        by (rule "1.IH" [OF False none])
      also have "\<dots> \<longleftrightarrow> (\<forall>j. i \<le> j \<and> j \<le> length s \<and> atLineStart s j \<longrightarrow> m (drop j s) = None)"
        using here by (metis Suc_leI le_neq_implies_less Suc_leD)
      finally show ?thesis .
    qed
  qed
qed

lemma jsRemainder_even: "jsRemainder n 2 = 0 \<longleftrightarrow> even n"
  by (auto simp: jsRemainder_def sgn_if)

lemma topicOrder_tally:
  "topicOrder env pageCode adjustedCode lastIndex previousDate difference =
     difference +
     tally ((case previousDate of None \<Rightarrow> [] | Some d \<Rightarrow> [d]) @
       List.map_filter (\<lambda>index. firstDate env (drop index pageCode))
         (headingIndexes adjustedCode lastIndex))"
proof (induction env pageCode adjustedCode lastIndex previousDate difference
    rule: topicOrder.induct)
  case (1 env pageCode adjustedCode lastIndex previousDate difference)
  show ?case
  proof (cases "execFrom sectionHeadingAt adjustedCode lastIndex")
    case None
    then show ?thesis
      by (subst topicOrder.simps, subst headingIndexes.simps)
         (simp add: List.map_filter_simps split: option.splits)
  next
    case (Some m)
    show ?thesis
    proof (cases "firstDate env (drop (fst m) pageCode)")
      case None
      with Some "1.IH"(1) [OF Some None] show ?thesis
        by (subst topicOrder.simps, subst headingIndexes.simps)
           (simp add: List.map_filter_simps)
    next
      case (Some date)
      with \<open>execFrom sectionHeadingAt adjustedCode lastIndex = Some m\<close>
        "1.IH"(2) [OF \<open>execFrom sectionHeadingAt adjustedCode lastIndex = Some m\<close> Some]
      show ?thesis
        by (subst topicOrder.simps, subst headingIndexes.simps)
           (simp add: List.map_filter_simps split: option.splits)
    qed
  qed
qed


text \<open>
  C9. When the code of the page is set, the per-site setting does not answer false, and
  no line of the comment-hidden code matches the section heading pattern, the first
  \<open>exec\<close> returns null and reading its \<open>index\<close> throws a TypeError:
  \<open>analyzeNewTopicPlacement\<close> fails and assigns nothing.
\<close>

theorem analyzeNewTopicPlacement_no_heading:
  assumes "code p = Some pageCode"
    and "(case areNewTopicsOnTopConfig env of None \<Rightarrow> Undefined
          | Some config \<Rightarrow> config (name p) pageCode) \<noteq> Decided False"
    and "\<forall>j \<le> length (hideHtmlComments env pageCode).
           atLineStart (hideHtmlComments env pageCode) j \<longrightarrow>
           sectionHeadingAt (drop j (hideHtmlComments env pageCode)) = None"
  shows "analyzeNewTopicPlacement env p = Inl TypeError"
proof -
  from assms(3) have "execFrom sectionHeadingAt (hideHtmlComments env pageCode) 0 = None"
    by (simp add: execFrom_None)
  with assms(1,2) show ?thesis
    by (simp add: analyzeNewTopicPlacement_def Let_def)
qed

theorem analyzeNewTopicPlacement_no_heading_witness:
  "analyzeNewTopicPlacement exampleCollaborators (examplePage ''No sections yet.\<newline>'' 1) =
     Inl TypeError"
proof (rule analyzeNewTopicPlacement_no_heading)
  show "code (examplePage ''No sections yet.\<newline>'' 1) = Some ''No sections yet.\<newline>''"
    by (simp add: examplePage_def)
  show "(case areNewTopicsOnTopConfig exampleCollaborators of None \<Rightarrow> Undefined
          | Some config \<Rightarrow> config (name (examplePage ''No sections yet.\<newline>'' 1))
              ''No sections yet.\<newline>'') \<noteq> Decided False"
    by (simp add: exampleCollaborators_def)
  have "execFrom sectionHeadingAt
      (hideHtmlComments exampleCollaborators ''No sections yet.\<newline>'') 0 = None"
    by code_simp
  then show "\<forall>j \<le> length (hideHtmlComments exampleCollaborators ''No sections yet.\<newline>'').
           atLineStart (hideHtmlComments exampleCollaborators ''No sections yet.\<newline>'') j \<longrightarrow>
           sectionHeadingAt (drop j (hideHtmlComments exampleCollaborators ''No sections yet.\<newline>''))
             = None"
    by (simp only: execFrom_None) simp
qed

text \<open>
  C2, as the code has it. When the code of the page is set, the per-site setting gives no
  answer and the comment-hidden code has a section heading, the first at index
  \<open>first\<close>, then \<open>analyzeNewTopicPlacement\<close> succeeds, sets
  \<open>firstSectionStartIndex\<close> to \<open>first\<close> and decides by a tally over the sections that
  have a date, each compared with the dated section before it (sections without a date
  are passed over): -1 when the later section has the greater date, +1 when it has
  not, equal dates included. \<open>areNewTopicsOnTop\<close> is true when the tally is positive,
  false when it is negative, and whether the namespace is even when it is zero.
\<close>

theorem analyzeNewTopicPlacement_tally:
  assumes "code p = Some pageCode"
    and "(case areNewTopicsOnTopConfig env of None \<Rightarrow> Undefined
          | Some config \<Rightarrow> config (name p) pageCode) = Undefined"
    and "execFrom sectionHeadingAt (hideHtmlComments env pageCode) 0 = Some (first, stop)"
  shows "analyzeNewTopicPlacement env p =
     Inr (p\<lparr>areNewTopicsOnTop :=
              Decided (if tally (sectionDates env pageCode) = 0 then even (namespace p)
                    else 0 < tally (sectionDates env pageCode)),
            firstSectionStartIndex := Some first\<rparr>)"
  using assms
  by (simp add: analyzeNewTopicPlacement_def Let_def topicOrder_tally sectionDates_def
      jsRemainder_even)

theorem analyzeNewTopicPlacement_tally_witness:
  "analyzeNewTopicPlacement exampleCollaborators
     (examplePage ''== a ==\<newline>Hi. 2003\<newline>== b ==\<newline>Hi. 2002\<newline>== c ==\<newline>Hi. 2001\<newline>'' 1) =
   Inr ((examplePage ''== a ==\<newline>Hi. 2003\<newline>== b ==\<newline>Hi. 2002\<newline>== c ==\<newline>Hi. 2001\<newline>'' 1)
     \<lparr>areNewTopicsOnTop := Decided True, firstSectionStartIndex := Some 0\<rparr>)"
proof -
  let ?code = "''== a ==\<newline>Hi. 2003\<newline>== b ==\<newline>Hi. 2002\<newline>== c ==\<newline>Hi. 2001\<newline>''"
  have set: "code (examplePage ?code 1) = Some ?code" by (simp add: examplePage_def)
  have undefined: "(case areNewTopicsOnTopConfig exampleCollaborators of None \<Rightarrow> Undefined
      | Some config \<Rightarrow> config (name (examplePage ?code 1)) ?code) = Undefined"
    by (simp add: exampleCollaborators_def)
  have heading: "execFrom sectionHeadingAt (hideHtmlComments exampleCollaborators ?code) 0 =
      Some (0, 8)"
    by code_simp
  have dates: "tally (sectionDates exampleCollaborators ?code) = 2" by code_simp
  from analyzeNewTopicPlacement_tally [OF set undefined heading] dates
  show ?thesis by simp
qed

text \<open>
  C2 as stated fails. A page without a section heading does not get the answer of the
  namespace: the analysis fails. And neighbours with equal dates count +1, though the
  upper one is not the newer: the page below, in an odd namespace, is found to have its
  new topics on top.
\<close>

theorem analyzeNewTopicPlacement_counterexample:
  "analyzeNewTopicPlacement exampleCollaborators (examplePage ''No sections yet.\<newline>'' 0) =
     Inl TypeError
   \<and> analyzeNewTopicPlacement exampleCollaborators
       (examplePage ''== a ==\<newline>Hi. 2001\<newline>== b ==\<newline>Hi. 2001\<newline>'' 1) =
     Inr ((examplePage ''== a ==\<newline>Hi. 2001\<newline>== b ==\<newline>Hi. 2001\<newline>'' 1)
       \<lparr>areNewTopicsOnTop := Decided True, firstSectionStartIndex := Some 0\<rparr>)"
  by code_simp


section \<open>Properties of Page.edit\<close>

lemma startsWith_stringIncludes: "startsWith s piece \<Longrightarrow> stringIncludes s piece"
  by (cases s) (simp_all add: startsWith_def)

lemma stringIncludes_append: "stringIncludes b piece \<Longrightarrow> stringIncludes (a @ b) piece"
  by (induction a) simp_all

lemma stringIncludes_middle: "stringIncludes (a @ piece @ b) piece"
  by (rule stringIncludes_append, rule startsWith_stringIncludes) (simp add: startsWith_def)

lemma edit_thrown:
  assumes "errorType d \<noteq> ''network''"
    and "errorApiData d = Some payload"
    and "error payload = Some err"
    and "errorMessage env err = Inr (m, raw)"
  shows "edit env p (Inl (CdError d)) =
     Inl (CdError \<lparr>errorType = ''api'', errorDataCode = Some ''error'', errorApiData = None,
       errorDetails = Some \<lparr>detailsCode = errorCode err, message = Some m,
         isRawMessage = raw, logMessage = LogCodeAndData (errorCode err) payload\<rparr>\<rparr>)"
  using assms by (simp add: edit_def)

lemma errorMessage_spam:
  "errorCode err = Some ''spamblacklist'' \<Longrightarrow>
   spamblacklistMatches err = Some (first # others) \<Longrightarrow>
   errorMessage env err = Inr (cd_s env ''error-spamblacklist'' [Some first], False)"
  by (simp add: errorMessage_def elementAt_def)

lemma errorMessage_unknown:
  "errorCode err \<notin> {Some ''spamblacklist'', Some ''titleblacklist'',
      Some ''abusefilter-warning'', Some ''abusefilter-disallowed'',
      Some ''editconflict'', Some ''blocked'', Some ''missingtitle''} \<Longrightarrow>
   unknownApiErrorText env (errorCode err) (info err) = Inr diagnostic \<Longrightarrow>
   errorMessage env err = Inr (cd_s env ''error-pagenotedited'' [] @ '' '' @ diagnostic, False)"
  unfolding errorMessage_def Let_def by (simp del: append.simps)




section \<open>Properties of the Autocomplete collections\<close>

lemma settled_stale_effects:
  "snapshot ch \<noteq> Some text \<Longrightarrow> snd (settled env k ch text result) = []"
  by (cases k; cases result)
    (simp_all add: settled_def mentionsSettled_def pageNamesSettled_def Let_def)

lemma settled_callback_current:
  "list_ex isCallback (snd (settled env k ch text result)) \<Longrightarrow> snapshot ch = Some text"
  using settled_stale_effects [of ch "text" env k result] by (cases "snapshot ch = Some text") auto

lemma valuesFor_snapshot:
  "snapshot (fst (valuesFor env k ch text)) = Some (queryText env k text)"
  by (cases k)
    (auto simp: valuesFor_def queryText_def mentionsValues_def wikilinksValues_def
      templatesValues_def pageNamesValues_def Let_def split: option.splits)

text \<open>
  C1. When a lookup for a query text settles, \<open>callback\<close> is called only if the snapshot
  of the channel is that text at that moment. So when a query with another text has
  come after the query, the settlement of the first lookup calls nothing: after the
  queries \<open>Ja\<close> and \<open>Jack\<close>, nothing is delivered for \<open>Ja\<close>.
\<close>

theorem stale_lookup_not_delivered:
  "(list_ex isCallback (snd (settled env k ch text result)) \<longrightarrow> snapshot ch = Some text)
   \<and> (queryText env k later \<noteq> queryText env k text \<longrightarrow>
        last (snd (run env k ch
          [Query text, Query later, Settle (queryText env k text) result])) = [])"
proof (intro conjI impI)
  assume "list_ex isCallback (snd (settled env k ch text result))"
  then show "snapshot ch = Some text" by (rule settled_callback_current)
next
  assume differ: "queryText env k later \<noteq> queryText env k text"
  obtain ch1 first where q1: "valuesFor env k ch text = (ch1, first)"
    by (cases "valuesFor env k ch text")
  obtain ch2 second where q2: "valuesFor env k ch1 later = (ch2, second)"
    by (cases "valuesFor env k ch1 later")
  from q2 valuesFor_snapshot [of env k ch1 later]
  have "snapshot ch2 = Some (queryText env k later)" by simp
  with differ have "snapshot ch2 \<noteq> Some (queryText env k text)" by simp
  then have "snd (settled env k ch2 (queryText env k text) result) = []"
    by (rule settled_stale_effects)
  moreover obtain ch3 third
    where q3: "settled env k ch2 (queryText env k text) result = (ch3, third)"
    by (cases "settled env k ch2 (queryText env k text) result")
  ultimately have "third = []" by simp
  with q1 q2 q3
  show "last (snd (run env k ch
          [Query text, Query later, Settle (queryText env k text) result])) = []"
    by (simp add: step_def)
qed

theorem stale_lookup_not_delivered_witness:
  "list_ex isCallback (snd (settled exampleEnv Mentions
      (fst (valuesFor exampleEnv Mentions newChannel ''Ja'')) ''Ja'' (Inr [''Jane'', ''Jack''])))
   \<and> snapshot (fst (valuesFor exampleEnv Mentions newChannel ''Ja'')) = Some ''Ja''
   \<and> last (snd (run exampleEnv Mentions newChannel
        [Query ''Ja'', Query ''Jack'', Settle ''Ja'' (Inr [''Jane'', ''Jack''])])) = []"
proof (intro conjI)
  show delivered: "list_ex isCallback (snd (settled exampleEnv Mentions
      (fst (valuesFor exampleEnv Mentions newChannel ''Ja'')) ''Ja'' (Inr [''Jane'', ''Jack''])))"
    by code_simp
  from stale_lookup_not_delivered [of exampleEnv Mentions
      "fst (valuesFor exampleEnv Mentions newChannel ''Ja'')" "''Ja''" "Inr [''Jane'', ''Jack'']"]
    delivered
  show "snapshot (fst (valuesFor exampleEnv Mentions newChannel ''Ja'')) = Some ''Ja''"
    by blast
  have "queryText exampleEnv Mentions ''Jack'' \<noteq> queryText exampleEnv Mentions ''Ja''"
    by (simp add: queryText_def)
  with stale_lookup_not_delivered [of exampleEnv Mentions newChannel "''Ja''"
      "Inr [''Jane'', ''Jack'']" "''Jack''"]
  show "last (snd (run exampleEnv Mentions newChannel
        [Query ''Ja'', Query ''Jack'', Settle ''Ja'' (Inr [''Jane'', ''Jack''])])) = []"
    by (simp add: queryText_def)
qed

text \<open>
  C5, as the code has it. When a lookup for a text settles with names while the snapshot
  is another text, nothing is delivered and the snapshot stays, but the result is
  stored all the same: \<open>cache\<close> becomes the names (without the current user in the
  mentions collection) and \<open>byText\<close> gets them under the text, the trimmed text at index
  9. A lookup that is rejected changes nothing.
\<close>

theorem stale_result_stored:
  assumes "snapshot ch \<noteq> Some text"
  shows "settled env k ch text (Inr names) =
           (ch\<lparr>cache := (if k = Mentions then removeSelf env names else names),
               byText := (byText ch)(text \<mapsto>
                 setIndex9 (map Some (if k = Mentions then removeSelf env names else names))
                   (trim text))\<rparr>, [])
         \<and> settled env k ch text (Inl rejected) = (ch, [])"
  using assms
  by (cases k) (simp_all add: settled_def mentionsSettled_def pageNamesSettled_def Let_def)

theorem stale_result_stored_witness:
  "snapshot exampleStaleChannel \<noteq> Some ''Ja''
   \<and> settled exampleEnv Mentions exampleStaleChannel ''Ja'' (Inr [''Jane'', ''Me'']) =
       (exampleStaleChannel\<lparr>cache := [''Jane''],
          byText := (byText exampleStaleChannel)(''Ja'' \<mapsto>
            [Some ''Jane'', None, None, None, None, None, None, None, None, Some ''Ja''])\<rparr>,
        [])"
proof
  show stale: "snapshot exampleStaleChannel \<noteq> Some ''Ja''" by code_simp
  have "removeSelf exampleEnv [''Jane'', ''Me''] = [''Jane'']" by code_simp
  moreover have "setIndex9 (map Some [''Jane'']) (trim ''Ja'') =
      [Some ''Jane'', None, None, None, None, None, None, None, None, Some ''Ja'']"
    by code_simp
  ultimately show "settled exampleEnv Mentions exampleStaleChannel ''Ja'' (Inr [''Jane'', ''Me'']) =
       (exampleStaleChannel\<lparr>cache := [''Jane''],
          byText := (byText exampleStaleChannel)(''Ja'' \<mapsto>
            [Some ''Jane'', None, None, None, None, None, None, None, None, Some ''Ja''])\<rparr>,
        [])"
    using stale_result_stored [OF stale, of exampleEnv Mentions "[''Jane'', ''Me'']"]
    by simp
qed

text \<open>
  C5 as stated fails: after the queries \<open>Ja\<close> and \<open>Jack\<close> the snapshot is \<open>Jack\<close>, and
  the settlement of the lookup for \<open>Ja\<close> still fills the cache and \<open>byText\<close>.
\<close>

theorem stale_result_stored_counterexample:
  "snapshot exampleStaleChannel = Some ''Jack''
   \<and> cache exampleStaleChannel = []
   \<and> byText exampleStaleChannel ''Ja'' = None
   \<and> cache (fst (settled exampleEnv Mentions exampleStaleChannel ''Ja''
         (Inr [''Jane'', ''Jack'']))) = [''Jane'', ''Jack'']
   \<and> byText (fst (settled exampleEnv Mentions exampleStaleChannel ''Ja''
         (Inr [''Jane'', ''Jack'']))) ''Ja'' =
       Some [Some ''Jane'', Some ''Jack'', None, None, None, None, None, None, None, Some ''Ja'']"
  by code_simp

lemma valuesFor_memo_no_request:
  "byText ch (queryText env k text) = Some stored \<Longrightarrow>
   \<not> list_ex isRequest (snd (valuesFor env k ch text))"
  by (cases k)
    (auto simp: valuesFor_def queryText_def mentionsValues_def wikilinksValues_def
      templatesValues_def pageNamesValues_def Let_def isRequest_def)

lemma valuesFor_memo_served:
  "byText ch (queryText env k text) = Some stored \<Longrightarrow>
   \<not> stringIncludes (queryText env k text) (marker k) \<Longrightarrow>
   \<not> (k = Mentions \<and> text \<noteq> [] \<and> snapshot ch = Some text) \<Longrightarrow>
   snd (valuesFor env k ch text) = [Callback (prepareValues env k stored)]"
  by (cases k)
    (auto simp: valuesFor_def queryText_def mentionsValues_def wikilinksValues_def
      templatesValues_def pageNamesValues_def Let_def)

lemma valuesFor_byText: "byText (fst (valuesFor env k ch text)) = byText ch"
  by (cases k)
    (auto simp: valuesFor_def mentionsValues_def wikilinksValues_def
      templatesValues_def pageNamesValues_def Let_def split: option.splits)

lemma valuesFor_requests:
  "length (filter isRequest (snd (valuesFor env k ch text))) \<le> 1"
  by (cases k)
    (auto simp: valuesFor_def mentionsValues_def wikilinksValues_def
      templatesValues_def pageNamesValues_def Let_def isRequest_def split: option.splits)

lemma settled_byText:
  "byText (fst (settled env k ch text (Inr names))) text \<noteq> None"
  by (cases k) (simp_all add: settled_def mentionsSettled_def pageNamesSettled_def Let_def)

lemma settled_no_request:
  "filter isRequest (snd (settled env k ch text result)) = []"
  by (cases k; cases result)
    (simp_all add: settled_def mentionsSettled_def pageNamesSettled_def Let_def isRequest_def)

lemma one_request:
  "list_ex isRequest (snd (valuesFor env k ch text)) \<Longrightarrow>
   length (filter isRequest (snd (valuesFor env k ch text))) = 1"
proof -
  assume "list_ex isRequest (snd (valuesFor env k ch text))"
  then have "filter isRequest (snd (valuesFor env k ch text)) \<noteq> []"
    by (simp add: filter_empty_conv list_ex_iff)
  then have "length (filter isRequest (snd (valuesFor env k ch text))) \<noteq> 0" by simp
  with valuesFor_requests [of env k ch "text"] show ?thesis by linarith
qed

text \<open>
  C6, as the code has it. Once \<open>byText\<close> has an entry for the text of a query, the query
  makes no request. It calls \<open>callback\<close> once with the entry, unless the text has the
  opening of the collection in it; only the mentions collection drops a query whose
  text is not empty and equals the snapshot, with no call at all. So a query that makes
  a request, the fulfilment of that request and the same query again make one request
  together.
\<close>

theorem repeated_query_uses_memo:
  "(byText ch (queryText env k text) = Some stored \<longrightarrow>
      \<not> list_ex isRequest (snd (valuesFor env k ch text)) \<and>
      (\<not> stringIncludes (queryText env k text) (marker k) \<and>
       \<not> (k = Mentions \<and> text \<noteq> [] \<and> snapshot ch = Some text) \<longrightarrow>
         snd (valuesFor env k ch text) = [Callback (prepareValues env k stored)]))
   \<and> (k = Mentions \<and> text \<noteq> [] \<and> snapshot ch = Some text \<longrightarrow>
        valuesFor env k ch text = (ch, []))
   \<and> (list_ex isRequest (snd (valuesFor env k ch text)) \<longrightarrow>
        requests (snd (run env k ch
          [Query text, Settle (queryText env k text) (Inr names), Query text])) = 1)"
proof (intro conjI impI)
  assume "byText ch (queryText env k text) = Some stored"
  then show "\<not> list_ex isRequest (snd (valuesFor env k ch text))"
    by (rule valuesFor_memo_no_request)
next
  assume "byText ch (queryText env k text) = Some stored"
    and "\<not> stringIncludes (queryText env k text) (marker k) \<and>
       \<not> (k = Mentions \<and> text \<noteq> [] \<and> snapshot ch = Some text)"
  then show "snd (valuesFor env k ch text) = [Callback (prepareValues env k stored)]"
    by (intro valuesFor_memo_served) simp_all
next
  assume "k = Mentions \<and> text \<noteq> [] \<and> snapshot ch = Some text"
  then show "valuesFor env k ch text = (ch, [])"
    by (simp add: valuesFor_def mentionsValues_def)
next
  assume asked: "list_ex isRequest (snd (valuesFor env k ch text))"
  obtain ch1 first where q1: "valuesFor env k ch text = (ch1, first)"
    by (cases "valuesFor env k ch text")
  obtain ch2 second
    where q2: "settled env k ch1 (queryText env k text) (Inr names) = (ch2, second)"
    by (cases "settled env k ch1 (queryText env k text) (Inr names)")
  obtain ch3 third where q3: "valuesFor env k ch2 text = (ch3, third)"
    by (cases "valuesFor env k ch2 text")
  from one_request [OF asked] q1 have one: "length (filter isRequest first) = 1" by simp
  from settled_no_request [of env k ch1 "queryText env k text" "Inr names"] q2
  have two: "filter isRequest second = []" by simp
  from settled_byText [of env k ch1 "queryText env k text" names] q2
  obtain stored where "byText ch2 (queryText env k text) = Some stored" by auto
  from valuesFor_memo_no_request [OF this] q3 have three: "filter isRequest third = []"
    by (simp add: filter_empty_conv list_ex_iff)
  from q1 q2 q3 one two three
  show "requests (snd (run env k ch
          [Query text, Settle (queryText env k text) (Inr names), Query text])) = 1"
    by (simp add: requests_def step_def)
qed

theorem repeated_query_uses_memo_witness:
  "snd (valuesFor exampleEnv Wikilinks exampleMemoChannel ''Ja'') =
     [Callback (prepareValues exampleEnv Wikilinks
        [Some ''Jane'', Some ''Jack'', None, None, None, None, None, None, None, Some ''Ja''])]
   \<and> valuesFor exampleEnv Mentions (fst (valuesFor exampleEnv Mentions newChannel ''Ja'')) ''Ja'' =
       (fst (valuesFor exampleEnv Mentions newChannel ''Ja''), [])
   \<and> requests (snd (run exampleEnv Wikilinks newChannel
        [Query ''Ja'', Settle ''Ja'' (Inr [''Jane'', ''Jack'']), Query ''Ja''])) = 1"
proof (intro conjI)
  have stored: "byText exampleMemoChannel (queryText exampleEnv Wikilinks ''Ja'') =
      Some [Some ''Jane'', Some ''Jack'', None, None, None, None, None, None, None, Some ''Ja'']"
    by code_simp
  have plain: "\<not> stringIncludes (queryText exampleEnv Wikilinks ''Ja'') (marker Wikilinks) \<and>
      \<not> (Wikilinks = Mentions \<and> ''Ja'' \<noteq> [] \<and> snapshot exampleMemoChannel = Some ''Ja'')"
    by code_simp
  from repeated_query_uses_memo [of exampleMemoChannel exampleEnv Wikilinks "''Ja''"
      "[Some ''Jane'', Some ''Jack'', None, None, None, None, None, None, None, Some ''Ja'']"]
    stored plain
  show "snd (valuesFor exampleEnv Wikilinks exampleMemoChannel ''Ja'') =
     [Callback (prepareValues exampleEnv Wikilinks
        [Some ''Jane'', Some ''Jack'', None, None, None, None, None, None, None, Some ''Ja''])]"
    by blast
  have same: "Mentions = Mentions \<and> ''Ja'' \<noteq> [] \<and>
      snapshot (fst (valuesFor exampleEnv Mentions newChannel ''Ja'')) = Some ''Ja''"
    by code_simp
  from repeated_query_uses_memo [of "fst (valuesFor exampleEnv Mentions newChannel ''Ja'')"
      exampleEnv Mentions "''Ja''"] same
  show "valuesFor exampleEnv Mentions (fst (valuesFor exampleEnv Mentions newChannel ''Ja'')) ''Ja'' =
       (fst (valuesFor exampleEnv Mentions newChannel ''Ja''), [])"
    by blast
  have asked: "list_ex isRequest (snd (valuesFor exampleEnv Wikilinks newChannel ''Ja''))"
    by code_simp
  have "queryText exampleEnv Wikilinks ''Ja'' = ''Ja''" by code_simp
  with repeated_query_uses_memo [of newChannel exampleEnv Wikilinks "''Ja''" _
      "[''Jane'', ''Jack'']"] asked
  show "requests (snd (run exampleEnv Wikilinks newChannel
        [Query ''Ja'', Settle ''Ja'' (Inr [''Jane'', ''Jack'']), Query ''Ja''])) = 1"
    by simp
qed

text \<open>
  C6 as stated fails. In the wikilinks collection two queries with the same text, the
  second before the lookup of the first has settled, make two requests. In the
  mentions collection the same query again, after the result has been stored, is not
  answered from \<open>byText\<close>: with the snapshot still that text it is dropped.
\<close>

theorem repeated_query_uses_memo_counterexample:
  "requests (snd (run exampleEnv Wikilinks newChannel [Query ''Ja'', Query ''Ja''])) = 2
   \<and> byText (fst (run exampleEnv Mentions newChannel
         [Query ''Ja'', Settle ''Ja'' (Inr [''Jane'', ''Jack''])])) ''Ja'' \<noteq> None
   \<and> last (snd (run exampleEnv Mentions newChannel
         [Query ''Ja'', Settle ''Ja'' (Inr [''Jane'', ''Jack'']), Query ''Ja''])) = []"
  by code_simp


section \<open>Properties of packVisits and unpackVisits\<close>

lemma splitWhere_none: "\<forall>c\<in>set l. \<not> P c \<Longrightarrow> splitWhere P l = [l]"
  by (induction l) auto

lemma splitWhere_append:
  "\<forall>c\<in>set l. \<not> P c \<Longrightarrow> P t \<Longrightarrow> splitWhere P (l @ t # rest) = l # splitWhere P rest"
  by (induction l) auto

lemma splitWhere_joinWith:
  "ls \<noteq> [] \<Longrightarrow> \<forall>l\<in>set ls. \<forall>c\<in>set l. \<not> P c \<Longrightarrow> P t \<Longrightarrow>
   splitWhere P (joinWith [t] ls) = ls"
proof (induction "[t]" ls rule: joinWith.induct)
  case 1
  then show ?case by simp
next
  case (2 x)
  then show ?case by (simp add: splitWhere_none)
next
  case (3 x y ys)
  then show ?case by (simp add: splitWhere_append)
qed

lemma trim_clean:
  assumes "s \<noteq> []" "\<not> isWhiteSpaceUnit (hd s)" "\<not> isWhiteSpaceUnit (last s)"
  shows "trimUnits (s @ [10]) = s"
proof -
  from assms(1,2) have "dropWhile isWhiteSpaceUnit (s @ [10]) = s @ [10]"
    by (cases s) simp_all
  moreover have "isWhiteSpaceUnit 10"
    by (simp add: isWhiteSpaceUnit_def isLineTerminatorUnit_def)
  moreover from assms(1,3) have "dropWhile isWhiteSpaceUnit (rev s) = rev s"
    by (cases "rev s") (auto simp: last_rev hd_rev dest: arg_cong [where f = hd])
  ultimately show ?thesis by (simp add: trimUnits_def)
qed

lemma concat_lines:
  "ls \<noteq> [] \<Longrightarrow> concat (map (\<lambda>l. l @ [t]) ls) = joinWith [t] ls @ [t]"
  by (induction "[t]" ls rule: joinWith.induct) simp_all

lemma joinWith_hd:
  "vs \<noteq> [] \<Longrightarrow> hd vs \<noteq> [] \<Longrightarrow> joinWith sep vs \<noteq> [] \<and> hd (joinWith sep vs) = hd (hd vs)"
  by (induction sep vs rule: joinWith.induct) auto

lemma joinWith_nonempty:
  "vs \<noteq> [] \<Longrightarrow> last vs \<noteq> [] \<Longrightarrow> joinWith sep vs \<noteq> []"
  by (induction sep vs rule: joinWith.induct) auto

lemma joinWith_last:
  "vs \<noteq> [] \<Longrightarrow> last vs \<noteq> [] \<Longrightarrow> last (joinWith sep vs) = last (last vs)"
proof (induction sep vs rule: joinWith.induct)
  case (3 separator x y ys)
  then have "joinWith separator (y # ys) \<noteq> []" by (intro joinWith_nonempty) auto
  with 3 show ?case by simp
qed simp_all

lemma joinWith_set:
  "c \<in> set (joinWith sep vs) \<Longrightarrow> c \<in> set sep \<or> (\<exists>v\<in>set vs. c \<in> set v)"
  by (induction sep vs rule: joinWith.induct) auto


lemma isDigit_comma: "\<not> isDigitUnit 44"
  by (simp add: isDigitUnit_def)

lemma visitsLine_packed:
  assumes "key \<noteq> []" "list_all isDigitUnit key" "r \<noteq> []" "hd r \<noteq> 32"
  shows "visitsLine (key @ [44] @ r) = Some (key, r)"
proof -
  from assms(2) have "\<forall>c\<in>set key. isDigitUnit c" by (simp add: list_all_iff)
  then have tw: "takeWhile isDigitUnit (key @ 44 # r) = key"
    and dw: "dropWhile isDigitUnit (key @ 44 # r) = 44 # r"
    by (simp_all add: takeWhile_append2 dropWhile_append2 isDigit_comma)
  from assms(3,4) have "dropWhile (\<lambda>c. c = 32) r = r"
    and "takeWhile (\<lambda>c. c = 32) r = []"
    and "\<exists>x\<in>set r. x \<noteq> 32" by (cases r; simp)+
  with tw dw assms(1,3) show ?thesis by (simp add: visitsLine_def Let_def)
qed

lemma foldl_store:
  assumes "distinct (map fst kvs)"
    and "\<forall>kv\<in>set kvs. visitsLine (line kv) = Some (fst kv, packed kv) \<and> split (packed kv) = snd kv"
  shows "foldl (\<lambda>visits l.
           case visitsLine l of
             None \<Rightarrow> visits
           | Some (key, timestamps) \<Rightarrow> visits(key \<mapsto> split timestamps))
         m (map line kvs) = m ++ map_of kvs"
  using assms
proof (induction kvs arbitrary: m)
  case Nil
  then show ?case by simp
next
  case (Cons kv kvs)
  obtain k vs where kv: "kv = (k, vs)" by (cases kv)
  let ?f = "\<lambda>visits l.
           case visitsLine l of
             None \<Rightarrow> visits
           | Some (key, timestamps) \<Rightarrow> visits(key \<mapsto> split timestamps)"
  from Cons.prems kv have notin: "map_of kvs k = None"
    by (simp add: map_of_eq_None_iff)
  from Cons.prems(2) kv have here: "?f m (line kv) = m(k \<mapsto> vs)" by simp
  from Cons.prems have rest: "distinct (map fst kvs)"
    "\<forall>kv\<in>set kvs. visitsLine (line kv) = Some (fst kv, packed kv) \<and> split (packed kv) = snd kv"
    by simp_all
  have "foldl ?f m (map line (kv # kvs)) = foldl ?f (?f m (line kv)) (map line kvs)" by simp
  also have "\<dots> = foldl ?f (m(k \<mapsto> vs)) (map line kvs)" by (simp only: here)
  also have "\<dots> = (m(k \<mapsto> vs)) ++ map_of kvs" by (rule Cons.IH [OF rest])
  also have "\<dots> = m ++ map_of (kv # kvs)"
  proof (rule ext)
    fix x
    show "((m(k \<mapsto> vs)) ++ map_of kvs) x = (m ++ map_of (kv # kvs)) x"
      using notin kv by (cases "x = k") (simp_all add: map_add_def split: option.splits)
  qed
  finally show ?case .
qed


lemma isDigit_plain: "isDigitUnit c \<Longrightarrow> \<not> isWhiteSpaceUnit c \<and> \<not> isLineTerminatorUnit c"
  by (auto simp: isDigitUnit_def isWhiteSpaceUnit_def isLineTerminatorUnit_def)

lemma packVisits_lines:
  "packVisits visits = trimUnits (concat (map (\<lambda>l. l @ [10]) (map packedLine visits)))"
  by (simp add: packVisits_def packedLine_def case_prod_unfold comp_def)

text \<open>
  C10, as the code has it. \<open>unpackVisits(packVisits(visits))\<close> gives back the visits, as
  a map from keys to arrays, when the keys are non-empty strings of the digits 0 to 9
  and the arrays non-empty arrays of non-empty strings without commas and without line
  terminators (line feed, carriage return, U+2028, U+2029), and moreover no array
  starts with a string that starts with a space, and the last string of the last array
  does not end with a character that \<open>trim\<close> strips.
\<close>

theorem unpackVisits_packVisits:
  assumes keys: "distinct (map fst visits)"
    and digits: "\<forall>(key, timestamps)\<in>set visits. key \<noteq> [] \<and> list_all isDigitUnit key"
    and arrays: "\<forall>(key, timestamps)\<in>set visits. timestamps \<noteq> [] \<and>
       (\<forall>t\<in>set timestamps. t \<noteq> [] \<and> 44 \<notin> set t \<and> \<not> list_ex isLineTerminatorUnit t)"
    and leading: "\<forall>(key, timestamps)\<in>set visits. hd (hd timestamps) \<noteq> 32"
    and trailing: "visits \<noteq> [] \<longrightarrow> \<not> isWhiteSpaceUnit (last (last (snd (last visits))))"
  shows "unpackVisits (packVisits visits) = map_of visits"
proof (cases "visits = []")
  case True
  then show ?thesis
    by (simp add: packVisits_def unpackVisits_def trimUnits_def
        visitsLine_def)
next
  case False
  let ?lines = "map packedLine visits"
  let ?body = "joinWith [10] ?lines"
  have entry: "fst kv \<noteq> [] \<and> list_all isDigitUnit (fst kv) \<and> snd kv \<noteq> [] \<and>
      (\<forall>t\<in>set (snd kv). t \<noteq> [] \<and> 44 \<notin> set t \<and> \<not> list_ex isLineTerminatorUnit t) \<and>
      hd (hd (snd kv)) \<noteq> 32" if "kv \<in> set visits" for kv
    using bspec [OF digits that] bspec [OF arrays that] bspec [OF leading that]
    by (simp add: case_prod_unfold)
  have joined: "joinWith [44] (snd kv) \<noteq> [] \<and>
      hd (joinWith [44] (snd kv)) \<noteq> 32" if "kv \<in> set visits" for kv
  proof -
    from entry [OF that] have "snd kv \<noteq> []" "hd (snd kv) \<noteq> []" by auto
    from joinWith_hd [OF this] entry [OF that] show ?thesis by simp
  qed
  have plain: "\<not> isLineTerminatorUnit c" if "kv \<in> set visits" "c \<in> set (packedLine kv)" for kv c
  proof -
    from that(2) consider "c \<in> set (fst kv)" | "c = 44" | "c \<in> set (joinWith [44] (snd kv))"
      by (auto simp: packedLine_def)
    then show ?thesis
    proof cases
      case 1
      with entry [OF that(1)] have "isDigitUnit c" by (simp add: list_all_iff)
      then show ?thesis by (simp add: isDigit_plain)
    next
      case 2
      then show ?thesis by (simp add: isLineTerminatorUnit_def)
    next
      case 3
      from joinWith_set [OF this] entry [OF that(1)] show ?thesis
        by (auto simp: isLineTerminatorUnit_def list_ex_iff)
    qed
  qed
  from False have lines: "?lines \<noteq> []" by simp
  have first: "hd ?lines = packedLine (hd visits)" and final: "last ?lines = packedLine (last visits)"
    using False by (simp_all add: hd_map last_map)
  have "hd visits \<in> set visits" "last visits \<in> set visits" using False by simp_all
  note ends = entry [OF this(1)] entry [OF this(2)] joined [OF this(2)]
  have nonempty: "packedLine kv \<noteq> []" for kv by (simp add: packedLine_def)
  have "hd ?body = hd (hd ?lines)" "?body \<noteq> []"
    using joinWith_hd [of ?lines "[10]"] lines nonempty by (simp_all add: first)
  moreover have "hd (packedLine (hd visits)) = hd (fst (hd visits))"
    using ends(1) by (simp add: packedLine_def)
  moreover have "isDigitUnit (hd (fst (hd visits)))"
    using ends(1) by (cases "fst (hd visits)") (simp_all add: list_all_iff)
  ultimately have start: "?body \<noteq> []" "\<not> isWhiteSpaceUnit (hd ?body)"
    by (simp_all add: first isDigit_plain)
  have "last ?body = last (last ?lines)"
    using joinWith_last [of ?lines "[10]"] lines nonempty by (simp add: final)
  moreover have "last (packedLine (last visits)) = last (joinWith [44] (snd (last visits)))"
    using ends(3) by (simp add: packedLine_def)
  moreover have "last (joinWith [44] (snd (last visits))) = last (last (snd (last visits)))"
    using ends(2) by (intro joinWith_last) auto
  ultimately have stop: "\<not> isWhiteSpaceUnit (last ?body)"
    using trailing False by (simp add: final)
  have "packVisits visits = trimUnits (?body @ [10])"
    unfolding packVisits_lines by (subst concat_lines [OF lines]) (rule refl)
  also have "\<dots> = ?body" by (rule trim_clean [OF start stop])
  finally have packed: "packVisits visits = ?body" .
  have "splitWhere isLineTerminatorUnit ?body = ?lines"
    using lines plain by (intro splitWhere_joinWith) (auto simp: isLineTerminatorUnit_def)
  moreover have "\<forall>kv\<in>set visits.
      visitsLine (packedLine kv) = Some (fst kv, joinWith [44] (snd kv)) \<and>
      split (joinWith [44] (snd kv)) = snd kv"
  proof
    fix kv assume kv: "kv \<in> set visits"
    from entry [OF kv] joined [OF kv]
    have "visitsLine (packedLine kv) = Some (fst kv, joinWith [44] (snd kv))"
      unfolding packedLine_def by (intro visitsLine_packed) auto
    moreover from entry [OF kv] have "split (joinWith [44] (snd kv)) = snd kv"
      unfolding split_def by (intro splitWhere_joinWith) auto
    ultimately show "visitsLine (packedLine kv) = Some (fst kv, joinWith [44] (snd kv)) \<and>
      split (joinWith [44] (snd kv)) = snd kv" ..
  qed
  ultimately have "unpackVisits ?body = Map.empty ++ map_of visits"
    unfolding unpackVisits_def using foldl_store [OF keys, of packedLine "\<lambda>kv. joinWith [44] (snd kv)"]
    by simp
  with packed show ?thesis by simp
qed



theorem unpackVisits_packVisits_witness:
  "unpackVisits (packVisits
     [(units ''7'', [units ''5'', units ''6 7'']), (units ''12'', [units ''100'', units ''200''])]) =
   map_of [(units ''7'', [units ''5'', units ''6 7'']), (units ''12'', [units ''100'', units ''200''])]"
proof (rule unpackVisits_packVisits)
  show "distinct (map fst
      [(units ''7'', [units ''5'', units ''6 7'']), (units ''12'', [units ''100'', units ''200''])])"
    by code_simp
  show "\<forall>(key, timestamps)\<in>set
      [(units ''7'', [units ''5'', units ''6 7'']), (units ''12'', [units ''100'', units ''200''])].
      key \<noteq> [] \<and> list_all isDigitUnit key"
    by code_simp
  show "\<forall>(key, timestamps)\<in>set
      [(units ''7'', [units ''5'', units ''6 7'']), (units ''12'', [units ''100'', units ''200''])].
      timestamps \<noteq> [] \<and>
      (\<forall>t\<in>set timestamps. t \<noteq> [] \<and> 44 \<notin> set t \<and> \<not> list_ex isLineTerminatorUnit t)"
    by code_simp
  show "\<forall>(key, timestamps)\<in>set
      [(units ''7'', [units ''5'', units ''6 7'']), (units ''12'', [units ''100'', units ''200''])].
      hd (hd timestamps) \<noteq> 32"
    by code_simp
  show "[(units ''7'', [units ''5'', units ''6 7'']),
       (units ''12'', [units ''100'', units ''200''])] \<noteq> [] \<longrightarrow>
      \<not> isWhiteSpaceUnit (last (last (snd (last
        [(units ''7'', [units ''5'', units ''6 7'']),
         (units ''12'', [units ''100'', units ''200''])]))))"
    by code_simp
qed

text \<open>
  C10 as stated fails. The strings below are non-empty and have neither a comma nor a
  line feed. A space at the end of the last string is lost to \<open>trim\<close>, a space at the
  start of the first string of an array to the \<open> *\<close> of the pattern, an array that is
  one space alone, on the last line, is lost with its key, and a string with the line
  separator U+2028 in it is cut there.
\<close>

theorem unpackVisits_packVisits_counterexample:
  "unpackVisits (packVisits [(units ''7'', [units ''5 ''])]) (units ''7'') = Some [units ''5'']
   \<and> unpackVisits (packVisits [(units ''7'', [units '' 5'']), (units ''8'', [units ''6''])])
       (units ''7'') = Some [units ''5'']
   \<and> unpackVisits (packVisits [(units ''7'', [units '' ''])]) (units ''7'') = None
   \<and> unpackVisits (packVisits [(units ''7'', [[0x61, 0x2028, 0x62]])]) (units ''7'') =
       Some [[0x61]]"
  by code_simp

end
